theory Spec2Isabelle
  imports Main "HOL-Library.Multiset" "HOL-Library.Product_Lexorder"
begin

section \<open>Errors and array primitives\<close>

text \<open>
  Every \<^verbatim>\<open>raise\<close> of the source and every failing array access is a value of
  \<open>error\<close>; a computation that can fail returns \<open>error + 'a\<close> with \<open>Inl\<close> the error.
\<close>

datatype error = ValueError string | IndexError | KeyError | TypeError | AttributeError

definition rbind :: "error + 'a \<Rightarrow> ('a \<Rightarrow> error + 'b) \<Rightarrow> error + 'b" where
  "rbind m f = (case m of Inl e \<Rightarrow> Inl e | Inr x \<Rightarrow> f x)"

text \<open>
  Positions into arrays are Python/numpy integers (\<open>int\<close>): a position \<open>i\<close> of an array of
  length \<open>n\<close> is valid for \<open>- n \<le> i < n\<close>, a negative one counting from the end, and any
  other raises \<^verbatim>\<open>IndexError\<close>.
\<close>

definition np_index :: "nat \<Rightarrow> int \<Rightarrow> nat option" where
  "np_index n i =
     (if 0 \<le> i \<and> i < int n then Some (nat i)
      else if - int n \<le> i \<and> i < 0 then Some (nat (int n + i))
      else None)"

definition getitem :: "'b list \<Rightarrow> int \<Rightarrow> error + 'b" where
  "getitem xs i = (case np_index (length xs) i of None \<Rightarrow> Inl IndexError | Some k \<Rightarrow> Inr (xs ! k))"

fun take_idx :: "'b list \<Rightarrow> int list \<Rightarrow> error + 'b list" where
  "take_idx xs [] = Inr []"
| "take_idx xs (i # is) =
     (case getitem xs i of Inl e \<Rightarrow> Inl e
      | Inr v \<Rightarrow> (case take_idx xs is of Inl e \<Rightarrow> Inl e | Inr vs \<Rightarrow> Inr (v # vs)))"

definition setitem :: "'b list \<Rightarrow> int \<Rightarrow> 'b \<Rightarrow> error + 'b list" where
  "setitem xs i v = (case np_index (length xs) i of None \<Rightarrow> Inl IndexError | Some k \<Rightarrow> Inr (xs[k := v]))"

text \<open>\<^verbatim>\<open>a[idx] = vals\<close> with an index array: the assignments happen in order.\<close>

fun setitems :: "'b list \<Rightarrow> int list \<Rightarrow> 'b list \<Rightarrow> error + 'b list" where
  "setitems xs (i # is) (v # vs) =
     (case setitem xs i v of Inl e \<Rightarrow> Inl e | Inr xs' \<Rightarrow> setitems xs' is vs)"
| "setitems xs [] [] = Inr xs"
| "setitems xs _ _ = Inl (ValueError ''shape mismatch'')"

text \<open>\<^verbatim>\<open>a[mask]\<close> with a boolean array of the length of \<open>a\<close>.\<close>

definition compress :: "bool list \<Rightarrow> 'b list \<Rightarrow> 'b list" where
  "compress m xs = map snd (filter fst (zip m xs))"

fun cumsum_from :: "int \<Rightarrow> int list \<Rightarrow> int list" where
  "cumsum_from a [] = []"
| "cumsum_from a (x # xs) = (a + x) # cumsum_from (a + x) xs"

definition cumsum :: "int list \<Rightarrow> int list" where
  "cumsum xs = cumsum_from 0 xs"

text \<open>Elementwise arithmetic of two arrays needs equal lengths.\<close>

definition np_sub :: "int list \<Rightarrow> int list \<Rightarrow> error + int list" where
  "np_sub xs ys =
     (if length xs = length ys then Inr (map2 (\<lambda>x y. x - y) xs ys)
      else Inl (ValueError ''operands could not be broadcast together''))"

text \<open>\<^verbatim>\<open>np.ones(n, dtype=int)\<close>: a negative length raises.\<close>

definition np_ones :: "int \<Rightarrow> error + int list" where
  "np_ones n = (if n < 0 then Inl (ValueError ''negative dimensions are not allowed'')
                else Inr (replicate (nat n) 1))"

text \<open>\<^verbatim>\<open>a.repeat(counts)\<close>: element \<open>k\<close> repeated \<open>counts[k]\<close> times.\<close>

definition np_repeat :: "'b list \<Rightarrow> int list \<Rightarrow> error + 'b list" where
  "np_repeat xs counts =
     (if length xs \<noteq> length counts then Inl (ValueError ''operands could not be broadcast together'')
      else if \<exists>c \<in> set counts. c < 0 then Inl (ValueError ''repeats may not contain negative values'')
      else Inr (concat (map2 (\<lambda>x c. replicate (nat c) x) xs counts)))"

section \<open>Interval expansion\<close>

text \<open>
  \<^verbatim>\<open>_interval_ranges(indices, right)\<close>: from the run lengths \<open>right - indices\<close> and their
  cumulative sums, an array of ones is patched at the start of every run, and its
  cumulative sum is returned.
\<close>

definition interval_ranges :: "int list \<Rightarrow> int list \<Rightarrow> error + int list" where
  "interval_ranges indices right =
     rbind (np_sub right indices) (\<lambda>cum_length.
     let cum_length = cumsum cum_length in
     rbind (getitem cum_length (- 1)) (\<lambda>total.
     rbind (np_ones total) (\<lambda>ids.
     rbind (getitem indices 0) (\<lambda>first.
     rbind (setitem ids 0 first) (\<lambda>ids.
     rbind (np_sub (tl indices) (butlast right)) (\<lambda>d.
     rbind (setitems ids (butlast cum_length) (map (\<lambda>x. x + 1) d)) (\<lambda>ids.
     Inr (cumsum ids))))))))"


section \<open>Columns and comparison operators\<close>

text \<open>
  A column value is \<open>'a option\<close>: \<open>None\<close> is the null (NaN) and the non-null values come
  from a linear order \<open>'a\<close>. A \<open>series\<close> is a column with its row labels, each row a pair
  (label, value), in the order of the rows. \<^verbatim>\<open>dropna\<close> removes the null rows; the rows
  that remain carry their values without the \<open>option\<close>.
\<close>

type_synonym 'a series = "(nat \<times> 'a option) list"

fun dropna :: "'a series \<Rightarrow> (nat \<times> 'a) list" where
  "dropna [] = []"
| "dropna ((l, None) # s) = dropna s"
| "dropna ((l, Some v) # s) = (l, v) # dropna s"

definition hasnans :: "'a series \<Rightarrow> bool" where
  "hasnans s = (\<exists>(l, v) \<in> set s. v = None)"

text \<open>\<^verbatim>\<open>Series.min()\<close> and \<^verbatim>\<open>Series.max()\<close> skip nulls and are null on no values.\<close>

definition series_min :: "('a::linorder) series \<Rightarrow> 'a option" where
  "series_min s = (case map snd (dropna s) of [] \<Rightarrow> None | v # vs \<Rightarrow> Some (fold min vs v))"

definition series_max :: "('a::linorder) series \<Rightarrow> 'a option" where
  "series_max s = (case map snd (dropna s) of [] \<Rightarrow> None | v # vs \<Rightarrow> Some (fold max vs v))"

text \<open>
  The class \<^verbatim>\<open>_JoinOperator\<close> and \<^verbatim>\<open>operator_map\<close>. A comparison with a null is
  false, but \<^verbatim>\<open>!=\<close> with a null is true (the IEEE rule numpy follows).
\<close>

datatype JoinOperator =
  GREATER_THAN | LESS_THAN | GREATER_THAN_OR_EQUAL | LESS_THAN_OR_EQUAL | STRICTLY_EQUAL | NOT_EQUAL

fun operator_value :: "JoinOperator \<Rightarrow> string" where
  "operator_value GREATER_THAN = ''>''"
| "operator_value LESS_THAN = ''<''"
| "operator_value GREATER_THAN_OR_EQUAL = ''>=''"
| "operator_value LESS_THAN_OR_EQUAL = ''<=''"
| "operator_value STRICTLY_EQUAL = ''==''"
| "operator_value NOT_EQUAL = ''!=''"

definition less_than_join_types :: "JoinOperator set" where
  "less_than_join_types = {LESS_THAN, LESS_THAN_OR_EQUAL}"

definition greater_than_join_types :: "JoinOperator set" where
  "greater_than_join_types = {GREATER_THAN, GREATER_THAN_OR_EQUAL}"

fun operator_map :: "JoinOperator \<Rightarrow> ('a::linorder) option \<Rightarrow> 'a option \<Rightarrow> bool" where
  "operator_map op (Some x) (Some y) =
     (case op of
        STRICTLY_EQUAL \<Rightarrow> x = y
      | LESS_THAN \<Rightarrow> x < y
      | LESS_THAN_OR_EQUAL \<Rightarrow> x \<le> y
      | GREATER_THAN \<Rightarrow> x > y
      | GREATER_THAN_OR_EQUAL \<Rightarrow> x \<ge> y
      | NOT_EQUAL \<Rightarrow> x \<noteq> y)"
| "operator_map op _ _ = (op = NOT_EQUAL)"

text \<open>
  \<^verbatim>\<open>a.searchsorted(v, side)\<close> on an ascending array: the first position whose element is
  not below \<open>v\<close> (\<^verbatim>\<open>left\<close>), or is above \<open>v\<close> (\<^verbatim>\<open>right\<close>).
\<close>

definition searchsorted_left :: "('a::linorder) list \<Rightarrow> 'a \<Rightarrow> int" where
  "searchsorted_left a v = int (length (takeWhile (\<lambda>x. x < v) a))"

definition searchsorted_right :: "('a::linorder) list \<Rightarrow> 'a \<Rightarrow> int" where
  "searchsorted_right a v = int (length (takeWhile (\<lambda>x. x \<le> v) a))"

text \<open>\<^verbatim>\<open>np.where(c, a, b)\<close> on three arrays of one length.\<close>

definition np_where :: "bool list \<Rightarrow> 'b list \<Rightarrow> 'b list \<Rightarrow> 'b list" where
  "np_where c a b = map (\<lambda>(c, a, b). if c then a else b) (zip c (zip a b))"

section \<open>Range matchers\<close>

text \<open>
  What a matcher returns: pairs of row labels, or (when more conditions follow) the
  labels of both sides with, per left row, the bounds of its range in the sorted right
  column, or (from the hash join) pairs of positions. No match is \<open>None\<close>.
\<close>

datatype matches =
  Pairs "nat list" "nat list"
| Bounds "nat list" "nat list" "int list" "int list"
| Positions "int list" "int list"

text \<open>
  The recurring step \<^verbatim>\<open>if rows_equal.any(): left_c = left_c[~rows_equal]; left_index =
  left_index[~rows_equal]; search_indices = search_indices[~rows_equal]\<close>.
\<close>

definition discard_rows ::
  "bool list \<Rightarrow> 'a list \<times> nat list \<times> int list \<Rightarrow> 'a list \<times> nat list \<times> int list" where
  "discard_rows rows_equal t =
     (case t of (left_c, left_index, search_indices) \<Rightarrow>
        if (\<exists>b \<in> set rows_equal. b) then
          (compress (map Not rows_equal) left_c,
           compress (map Not rows_equal) left_index,
           compress (map Not rows_equal) search_indices)
        else t)"

text \<open>
  The block that \<^verbatim>\<open>_less_than_indices\<close> and \<^verbatim>\<open>_greater_than_indices\<close> share: nulls
  are dropped on both sides, the right column is sorted unless it is ascending already,
  and labels and values are taken apart. The result is
  \<open>(left_index, left_c, right_index, right_c)\<close>.
\<close>

definition sorted_operands ::
  "('a::linorder) series \<Rightarrow> 'a series \<Rightarrow> nat list \<times> 'a list \<times> nat list \<times> 'a list" where
  "sorted_operands left_c right_c =
     (let right_c = dropna right_c;
          right_c = (if \<not> sorted (map snd right_c) then sort_key snd right_c else right_c);
          left_c = dropna left_c;
          left_index = map fst left_c;
          left_c = map snd left_c;
          right_index = map fst right_c;
          right_c = map snd right_c
      in (left_index, left_c, right_index, right_c))"

text \<open>The block \<^verbatim>\<open>if strict:\<close> of \<^verbatim>\<open>_less_than_indices\<close>: ties move to the right insertion point.\<close>

definition less_than_strict ::
  "('a::linorder) list \<Rightarrow> 'a list \<times> nat list \<times> int list \<Rightarrow> error + 'a list \<times> nat list \<times> int list" where
  "less_than_strict right_c t =
     (case t of (left_c, left_index, search_indices) \<Rightarrow>
        rbind (take_idx right_c search_indices) (\<lambda>rows_equal.
        let rows_equal = map2 (\<lambda>a b. a = b) left_c rows_equal;
            search_indices =
              (if (\<exists>b \<in> set rows_equal. b) then
                 let replacements = map (searchsorted_right right_c) left_c
                 in np_where rows_equal replacements search_indices
               else search_indices);
            rows_equal = map (\<lambda>s. s = int (length right_c)) search_indices
        in Inr (discard_rows rows_equal (left_c, left_index, search_indices))))"

text \<open>The end of \<^verbatim>\<open>_less_than_indices\<close>, from \<^verbatim>\<open>indices = np.repeat(len_right, ...)\<close>.\<close>

definition less_than_result ::
  "nat \<Rightarrow> nat list \<Rightarrow> nat list \<Rightarrow> int list \<Rightarrow> int \<Rightarrow> error + matches option" where
  "less_than_result len_conditions left_index right_index search_indices len_right =
     (let indices = replicate (length search_indices) len_right in
      if len_conditions > 1 then
        Inr (Some (Bounds left_index right_index search_indices indices))
      else
        rbind (interval_ranges search_indices indices) (\<lambda>positions.
        rbind (np_sub indices search_indices) (\<lambda>search_indices.
        rbind (take_idx right_index positions) (\<lambda>right_c.
        rbind (np_repeat left_index search_indices) (\<lambda>left_c.
        Inr (Some (Pairs left_c right_c)))))))"

definition less_than_indices ::
  "('a::linorder) series \<Rightarrow> 'a series \<Rightarrow> bool \<Rightarrow> nat \<Rightarrow> error + matches option" where
  "less_than_indices left_c right_c strict len_conditions =
     (if (case (series_min left_c, series_max right_c) of
            (Some a, Some b) \<Rightarrow> a > b | _ \<Rightarrow> False)
      then Inr None
      else
        case sorted_operands left_c right_c of (left_index, left_c, right_index, right_c) \<Rightarrow>
        let search_indices = map (searchsorted_left right_c) left_c;
            len_right = int (length right_c);
            rows_equal = map (\<lambda>s. s = len_right) search_indices
        in
        case discard_rows rows_equal (left_c, left_index, search_indices) of
          (left_c, left_index, search_indices) \<Rightarrow>
        if search_indices = [] then Inr None
        else
          rbind (if strict then less_than_strict right_c (left_c, left_index, search_indices)
                 else Inr (left_c, left_index, search_indices))
            (\<lambda>(left_c, left_index, search_indices).
               if search_indices = [] then Inr None
               else less_than_result len_conditions left_index right_index
                      search_indices len_right))"

text \<open>The block \<^verbatim>\<open>if strict:\<close> of \<^verbatim>\<open>_greater_than_indices\<close>: ties move to the left insertion point.\<close>

definition greater_than_strict ::
  "('a::linorder) list \<Rightarrow> 'a list \<times> nat list \<times> int list \<Rightarrow> error + 'a list \<times> nat list \<times> int list" where
  "greater_than_strict right_c t =
     (case t of (left_c, left_index, search_indices) \<Rightarrow>
        rbind (take_idx right_c (map (\<lambda>s. s - 1) search_indices)) (\<lambda>rows_equal.
        let rows_equal = map2 (\<lambda>a b. a = b) left_c rows_equal;
            search_indices =
              (if (\<exists>b \<in> set rows_equal. b) then
                 let replacements = map (searchsorted_left right_c) left_c;
                     replacements =
                       np_where (map (\<lambda>r. r = int (length right_c)) replacements)
                         (map (\<lambda>r. r - 1) replacements) replacements
                 in np_where rows_equal replacements search_indices
               else search_indices);
            rows_equal = map (\<lambda>s. s < 1) search_indices
        in Inr (discard_rows rows_equal (left_c, left_index, search_indices))))"

text \<open>The end of \<^verbatim>\<open>_greater_than_indices\<close>, from \<^verbatim>\<open>indices = np.zeros(...)\<close>.\<close>

definition greater_than_result ::
  "nat \<Rightarrow> nat list \<Rightarrow> nat list \<Rightarrow> int list \<Rightarrow> error + matches option" where
  "greater_than_result len_conditions left_index right_index search_indices =
     (let indices = replicate (length search_indices) (0::int) in
      if len_conditions > 1 then
        Inr (Some (Bounds left_index right_index search_indices indices))
      else
        rbind (interval_ranges indices search_indices) (\<lambda>positions.
        rbind (take_idx right_index positions) (\<lambda>right_c.
        rbind (np_repeat left_index search_indices) (\<lambda>left_c.
        Inr (Some (Pairs left_c right_c))))))"

definition greater_than_indices ::
  "('a::linorder) series \<Rightarrow> 'a series \<Rightarrow> bool \<Rightarrow> nat \<Rightarrow> error + matches option" where
  "greater_than_indices left_c right_c strict len_conditions =
     (if (case (series_max left_c, series_min right_c) of
            (Some a, Some b) \<Rightarrow> a < b | _ \<Rightarrow> False)
      then Inr None
      else
        case sorted_operands left_c right_c of (left_index, left_c, right_index, right_c) \<Rightarrow>
        let search_indices = map (searchsorted_right right_c) left_c;
            rows_equal = map (\<lambda>s. s < 1) search_indices
        in
        case discard_rows rows_equal (left_c, left_index, search_indices) of
          (left_c, left_index, search_indices) \<Rightarrow>
        if search_indices = [] then Inr None
        else
          rbind (if strict then greater_than_strict right_c (left_c, left_index, search_indices)
                 else Inr (left_c, left_index, search_indices))
            (\<lambda>(left_c, left_index, search_indices).
               if search_indices = [] then Inr None
               else greater_than_result len_conditions left_index right_index search_indices))"

section \<open>Tables\<close>

text \<open>
  The families of column types that the type gate tells apart; a type of no family is
  \<open>Other\<close>. \<open>Integer\<close> stands for the signed integer types, whose \<^verbatim>\<open>dtype.kind\<close> is
  \<^verbatim>\<open>"i"\<close>; unsigned integers are outside the model.
\<close>

datatype dtype = Datetime64 | Integer | Float | String | Categorical | Other

text \<open>
  A \<^verbatim>\<open>DataFrame\<close>: the row labels \<^verbatim>\<open>df.index\<close>, whether \<^verbatim>\<open>df.columns\<close> is a
  \<^verbatim>\<open>MultiIndex\<close>, and the columns in order, each with its label, type and values.
\<close>

record 'a frame =
  frame_index :: "nat list"
  frame_multi :: bool
  frame_columns :: "(string \<times> dtype \<times> 'a option list) list"

definition nrows :: "'a frame \<Rightarrow> nat" where
  "nrows df = length (frame_index df)"

text \<open>\<^verbatim>\<open>df.empty\<close>: an axis of length 0.\<close>

definition df_empty :: "'a frame \<Rightarrow> bool" where
  "df_empty df = (frame_index df = [] \<or> frame_columns df = [])"

text \<open>The position of a row label in an index; \<^verbatim>\<open>KeyError\<close> when it is not there.\<close>

fun label_pos :: "nat list \<Rightarrow> nat \<Rightarrow> nat option" where
  "label_pos [] l = None"
| "label_pos (x # xs) l = (if x = l then Some 0 else map_option Suc (label_pos xs l))"

definition get_loc :: "nat list \<Rightarrow> nat \<Rightarrow> error + nat" where
  "get_loc idx l = (case label_pos idx l of None \<Rightarrow> Inl KeyError | Some p \<Rightarrow> Inr p)"

fun get_locs :: "nat list \<Rightarrow> nat list \<Rightarrow> error + nat list" where
  "get_locs idx [] = Inr []"
| "get_locs idx (l # ls) =
     (case get_loc idx l of Inl e \<Rightarrow> Inl e
      | Inr p \<Rightarrow> (case get_locs idx ls of Inl e \<Rightarrow> Inl e | Inr ps \<Rightarrow> Inr (p # ps)))"

text \<open>\<^verbatim>\<open>df[label]\<close>: the column as a series, \<^verbatim>\<open>KeyError\<close> when there is none.\<close>

definition column_values :: "'a frame \<Rightarrow> string \<Rightarrow> error + 'a option list" where
  "column_values df label =
     (case map_of (frame_columns df) label of None \<Rightarrow> Inl KeyError | Some (t, vs) \<Rightarrow> Inr vs)"

definition column_dtype :: "'a frame \<Rightarrow> string \<Rightarrow> error + dtype" where
  "column_dtype df label =
     (case map_of (frame_columns df) label of None \<Rightarrow> Inl KeyError | Some (t, vs) \<Rightarrow> Inr t)"

definition getcol :: "'a frame \<Rightarrow> string \<Rightarrow> error + 'a series" where
  "getcol df label = rbind (column_values df label) (\<lambda>vs. Inr (zip (frame_index df) vs))"

text \<open>\<^verbatim>\<open>df.loc[labels, label]\<close>: the rows of a column with the given row labels, in their order.\<close>

definition loc_col :: "'a frame \<Rightarrow> nat list \<Rightarrow> string \<Rightarrow> error + 'a series" where
  "loc_col df labels label =
     rbind (column_values df label) (\<lambda>vs.
     rbind (get_locs (frame_index df) labels) (\<lambda>ps.
     rbind (take_idx vs (map int ps)) (\<lambda>xs.
     Inr (zip labels xs))))"

text \<open>\<^verbatim>\<open>df.loc[labels]\<close>: the rows with the given labels, as a table.\<close>

definition loc_rows :: "'a frame \<Rightarrow> nat list \<Rightarrow> error + 'a frame" where
  "loc_rows df labels =
     rbind (get_locs (frame_index df) labels) (\<lambda>ps.
     Inr (df\<lparr>frame_index := labels,
            frame_columns := map (\<lambda>(c, t, vs). (c, t, map (\<lambda>p. vs ! p) ps)) (frame_columns df)\<rparr>))"

text \<open>\<^verbatim>\<open>df.index = pd.RangeIndex(start=0, stop=len(df))\<close>.\<close>

definition reset_range_index :: "'a frame \<Rightarrow> 'a frame" where
  "reset_range_index df = df\<lparr>frame_index := [0..<nrows df]\<rparr>"

text \<open>The same rows of a series with the nulls removed (\<^verbatim>\<open>Series.dropna\<close>), values kept as they are.\<close>

definition series_dropna :: "'a series \<Rightarrow> 'a series" where
  "series_dropna s = filter (\<lambda>r. snd r \<noteq> None) s"

section \<open>Equality and inequality matchers\<close>

text \<open>
  \<^verbatim>\<open>_MergeOperation(...)._get_join_indexers()\<close> is the hash join of pandas: for an inner
  join it returns the pairs of positions whose keys are equal, a null key matching a null
  key. The pairs are listed here left position first; pandas fixes no order and no claim
  below depends on one.
\<close>

definition get_join_indexers :: "'k list \<Rightarrow> 'k list \<Rightarrow> int list \<times> int list" where
  "get_join_indexers left_keys right_keys =
     (let ps = concat (map (\<lambda>i. map (\<lambda>j. (i, j))
                 (filter (\<lambda>j. left_keys ! i = right_keys ! j) [0..<length right_keys]))
                 [0..<length left_keys])
      in (map (\<lambda>p. int (fst p)) ps, map (\<lambda>p. int (snd p)) ps))"

text \<open>
  \<^verbatim>\<open>_equal_indices\<close>. The two sides are rows of keys with their labels: the values of
  one column, or the rows of several columns for a composite key.
\<close>

definition equal_indices ::
  "(nat \<times> 'k) list \<Rightarrow> (nat \<times> 'k) list \<Rightarrow> nat \<Rightarrow> error + matches option" where
  "equal_indices left_c right_c len_conditions =
     (case get_join_indexers (map snd left_c) (map snd right_c) of (left_index, right_index) \<Rightarrow>
        if \<not> length left_index > 0 then Inr None
        else if len_conditions > 1 then Inr (Some (Positions left_index right_index))
        else
          rbind (take_idx (map fst left_c) left_index) (\<lambda>l.
          rbind (take_idx (map fst right_c) right_index) (\<lambda>r.
          Inr (Some (Pairs l r)))))"

text \<open>
  Unpacking what a matcher returned: \<^verbatim>\<open>a, b = result\<close> needs two arrays,
  \<^verbatim>\<open>a, b, c, d = result\<close> four, and \<^verbatim>\<open>a, b, *_ = result\<close> at least two. Positions
  and labels are both integers in the source; where one is read as the other the
  conversion is written out.
\<close>

fun unpack_pairs :: "matches \<Rightarrow> error + nat list \<times> nat list" where
  "unpack_pairs (Pairs l r) = Inr (l, r)"
| "unpack_pairs (Positions l r) = Inr (map nat l, map nat r)"
| "unpack_pairs (Bounds l r s i) = Inl (ValueError ''too many values to unpack'')"

fun unpack_positions :: "matches \<Rightarrow> error + int list \<times> int list" where
  "unpack_positions (Positions l r) = Inr (l, r)"
| "unpack_positions (Pairs l r) = Inr (map int l, map int r)"
| "unpack_positions (Bounds l r s i) = Inl (ValueError ''too many values to unpack'')"

fun unpack_bounds :: "matches \<Rightarrow> error + nat list \<times> nat list \<times> int list \<times> int list" where
  "unpack_bounds (Bounds l r s i) = Inr (l, r, s, i)"
| "unpack_bounds _ = Inl (ValueError ''not enough values to unpack'')"

fun unpack_first_two :: "matches \<Rightarrow> nat list \<times> nat list" where
  "unpack_first_two (Bounds l r s i) = (l, r)"
| "unpack_first_two (Pairs l r) = (l, r)"
| "unpack_first_two (Positions l r) = (map nat l, map nat r)"

text \<open>\<^verbatim>\<open>_not_equal_indices\<close>: the strictly-less pairs followed by the strictly-greater pairs.\<close>

definition not_equal_indices ::
  "('a::linorder) series \<Rightarrow> 'a series \<Rightarrow> error + matches option" where
  "not_equal_indices left_c right_c =
     rbind (less_than_indices left_c right_c True 1) (\<lambda>outcome.
     rbind (case outcome of None \<Rightarrow> Inr ([], []) | Some m \<Rightarrow> unpack_pairs m) (\<lambda>(lt_left, lt_right).
     rbind (greater_than_indices left_c right_c True 1) (\<lambda>outcome.
     rbind (case outcome of None \<Rightarrow> Inr ([], []) | Some m \<Rightarrow> unpack_pairs m) (\<lambda>(gt_left, gt_right).
     if (\<not> length lt_left > 0) \<and> (\<not> length gt_left > 0) then Inr None
     else Inr (Some (Pairs (lt_left @ gt_left) (lt_right @ gt_right)))))))"

text \<open>\<^verbatim>\<open>_generic_func_cond_join\<close>.\<close>

definition generic_func_cond_join ::
  "('a::linorder) series \<Rightarrow> 'a series \<Rightarrow> JoinOperator \<Rightarrow> nat \<Rightarrow> error + matches option" where
  "generic_func_cond_join left_c right_c op len_conditions =
     (let strict = (op \<in> {GREATER_THAN, LESS_THAN, NOT_EQUAL}) in
      if op \<in> less_than_join_types then less_than_indices left_c right_c strict len_conditions
      else if op \<in> greater_than_join_types then
        greater_than_indices left_c right_c strict len_conditions
      else if op = NOT_EQUAL then not_equal_indices left_c right_c
      else equal_indices left_c right_c len_conditions)"

section \<open>Multi-condition combiners\<close>

text \<open>A validated condition \<^verbatim>\<open>(left_on, right_on, op)\<close>.\<close>

type_synonym condition = "string \<times> string \<times> JoinOperator"

text \<open>
  The loop that all three combiners run over the remaining conditions:
  \<^verbatim>\<open>mask = None; for left_on, right_on, op in rest: ...; if mask is None: mask =
  op(left_c, right_c) else: mask &= op(left_c, right_c)\<close>. How the two arrays of a
  condition are fetched differs between the combiners and is the parameter \<open>fetch\<close>.
\<close>

fun mask_loop ::
  "(condition \<Rightarrow> error + ('a::linorder) option list \<times> 'a option list) \<Rightarrow> condition list \<Rightarrow>
   bool list option \<Rightarrow> error + bool list option" where
  "mask_loop fetch [] msk = Inr msk"
| "mask_loop fetch (c # rest) msk =
     (case fetch c of Inl e \<Rightarrow> Inl e
      | Inr (left_c, right_c) \<Rightarrow>
          let m = map2 (operator_map (snd (snd c))) left_c right_c in
          mask_loop fetch rest
            (Some (case msk of None \<Rightarrow> m | Some mk \<Rightarrow> map2 (\<lambda>a b. a \<and> b) mk m)))"

text \<open>
  The end of a combiner: \<^verbatim>\<open>if not mask.any(): return None\<close>, then
  \<^verbatim>\<open>df_index[mask], right_index[mask]\<close>. A mask that is still \<^verbatim>\<open>None\<close> has no
  \<^verbatim>\<open>any\<close>.
\<close>

definition apply_mask :: "bool list option \<Rightarrow> 'b list \<Rightarrow> 'c list \<Rightarrow> error + ('b list \<times> 'c list) option" where
  "apply_mask msk df_index right_index =
     (case msk of None \<Rightarrow> Inl AttributeError
      | Some m \<Rightarrow>
          if \<not> (\<exists>b \<in> set m. b) then Inr None
          else Inr (Some (compress m df_index, compress m right_index)))"

text \<open>
  The rows of several columns as keys with their labels (\<^verbatim>\<open>df.loc[:, [*left_on]]\<close>), and
  the removal of the rows that hold a null.
\<close>

fun columns_values :: "'a frame \<Rightarrow> string list \<Rightarrow> error + 'a option list list" where
  "columns_values df [] = Inr []"
| "columns_values df (c # cs) =
     (case column_values df c of Inl e \<Rightarrow> Inl e
      | Inr vs \<Rightarrow> (case columns_values df cs of Inl e \<Rightarrow> Inl e | Inr vss \<Rightarrow> Inr (vs # vss)))"

definition key_rows :: "'a frame \<Rightarrow> string list \<Rightarrow> error + (nat \<times> 'a option list) list" where
  "key_rows df labels =
     rbind (columns_values df labels) (\<lambda>vss.
     Inr (map (\<lambda>p. (frame_index df ! p, map (\<lambda>vs. vs ! p) vss)) [0..<nrows df]))"

definition rows_dropna :: "(nat \<times> 'a option list) list \<Rightarrow> (nat \<times> 'a option list) list" where
  "rows_dropna rows = filter (\<lambda>r. None \<notin> set (snd r)) rows"

text \<open>
  \<^verbatim>\<open>_multiple_conditional_join_eq\<close>. A single \<^verbatim>\<open>==\<close> column is a key of one value, so
  both branches of \<^verbatim>\<open>if len(eq_cond) == 1\<close> hand rows of keys to \<open>equal_indices\<close>. The
  tables narrowed to the rows without a null key are local to this function.
\<close>

definition multiple_conditional_join_eq ::
  "('a::linorder) frame \<Rightarrow> 'a frame \<Rightarrow> condition list \<Rightarrow> error + matches option" where
  "multiple_conditional_join_eq df right conditions =
     (let eq_cond = filter (\<lambda>cond. snd (snd cond) = STRICTLY_EQUAL) conditions;
          rest = filter (\<lambda>cond. snd (snd cond) \<noteq> STRICTLY_EQUAL) conditions
      in
      rbind
        (if length eq_cond = 1 then
           (case hd eq_cond of (left_on, right_on, _) \<Rightarrow>
              rbind (getcol df left_on) (\<lambda>left_c.
              rbind (getcol right right_on) (\<lambda>right_c.
              rbind (if hasnans left_c
                     then rbind (loc_rows df (map fst (series_dropna left_c))) (\<lambda>df'.
                          Inr (series_dropna left_c, df'))
                     else Inr (left_c, df)) (\<lambda>(left_c, df).
              rbind (if hasnans right_c
                     then rbind (loc_rows right (map fst (series_dropna right_c))) (\<lambda>right'.
                          Inr (series_dropna right_c, right'))
                     else Inr (right_c, right)) (\<lambda>(right_c, right).
              Inr (map (\<lambda>(l, v). (l, [v])) left_c, df,
                   map (\<lambda>(l, v). (l, [v])) right_c, right))))))
         else
           rbind (key_rows df (map fst eq_cond)) (\<lambda>left_c.
           rbind (key_rows right (map (\<lambda>cond. fst (snd cond)) eq_cond)) (\<lambda>right_c.
           rbind (if (\<exists>r \<in> set left_c. None \<in> set (snd r))
                  then rbind (loc_rows df (map fst (rows_dropna left_c))) (\<lambda>df'.
                       Inr (rows_dropna left_c, df'))
                  else Inr (left_c, df)) (\<lambda>(left_c, df).
           rbind (if (\<exists>r \<in> set right_c. None \<in> set (snd r))
                  then rbind (loc_rows right (map fst (rows_dropna right_c))) (\<lambda>right'.
                       Inr (rows_dropna right_c, right'))
                  else Inr (right_c, right)) (\<lambda>(right_c, right).
           Inr (left_c, df, right_c, right))))))
        (\<lambda>(left_c, df, right_c, right).
           rbind (equal_indices left_c right_c 2) (\<lambda>result.
           case result of None \<Rightarrow> Inr None
           | Some m \<Rightarrow>
               rbind (unpack_positions m) (\<lambda>(df_index, right_index).
               if rest = [] then
                 rbind (take_idx (frame_index df) df_index) (\<lambda>l.
                 rbind (take_idx (frame_index right) right_index) (\<lambda>r.
                 Inr (Some (Pairs l r))))
               else
                 rbind (mask_loop
                          (\<lambda>(left_on, right_on, op).
                             rbind (column_values df left_on) (\<lambda>left_c.
                             rbind (take_idx left_c df_index) (\<lambda>left_c.
                             rbind (column_values right right_on) (\<lambda>right_c.
                             rbind (take_idx right_c right_index) (\<lambda>right_c.
                             Inr (left_c, right_c))))))
                          rest None) (\<lambda>msk.
                 rbind (apply_mask msk df_index right_index) (\<lambda>masked.
                 case masked of None \<Rightarrow> Inr None
                 | Some (df_index, right_index) \<Rightarrow>
                     rbind (take_idx (frame_index df) df_index) (\<lambda>l.
                     rbind (take_idx (frame_index right) right_index) (\<lambda>r.
                     Inr (Some (Pairs l r))))))))))"

text \<open>\<^verbatim>\<open>_multiple_conditional_join_ne\<close>.\<close>

definition multiple_conditional_join_ne ::
  "('a::linorder) frame \<Rightarrow> 'a frame \<Rightarrow> condition list \<Rightarrow> error + matches option" where
  "multiple_conditional_join_ne df right conditions =
     (case conditions of
        [] \<Rightarrow> Inl (ValueError ''not enough values to unpack'')
      | (left_on, right_on, op) # rest \<Rightarrow>
          rbind (getcol df left_on) (\<lambda>left_c.
          rbind (getcol right right_on) (\<lambda>right_c.
          rbind (generic_func_cond_join left_c right_c op 1) (\<lambda>result.
          case result of None \<Rightarrow> Inr None
          | Some m \<Rightarrow>
              rbind (unpack_pairs m) (\<lambda>(df_index, right_index).
              rbind (mask_loop
                       (\<lambda>(left_on, right_on, op).
                          rbind (loc_col df df_index left_on) (\<lambda>left_c.
                          rbind (loc_col right right_index right_on) (\<lambda>right_c.
                          Inr (map snd left_c, map snd right_c))))
                       rest None) (\<lambda>msk.
              rbind (apply_mask msk df_index right_index) (\<lambda>masked.
              case masked of None \<Rightarrow> Inr None
              | Some (df_index, right_index) \<Rightarrow> Inr (Some (Pairs df_index right_index)))))))))"

text \<open>
  Python's \<^verbatim>\<open>a[lo:hi]\<close>: a negative bound counts from the end and every bound is
  clamped to the array.
\<close>

definition slice_bound :: "nat \<Rightarrow> int \<Rightarrow> nat" where
  "slice_bound n i = (if i < 0 then nat (max 0 (int n + i)) else min (nat i) n)"

definition py_slice :: "'b list \<Rightarrow> int \<Rightarrow> int \<Rightarrow> 'b list" where
  "py_slice xs lo hi =
     take (slice_bound (length xs) hi - slice_bound (length xs) lo)
       (drop (slice_bound (length xs) lo) xs)"

text \<open>
  The first loop of \<^verbatim>\<open>_multiple_conditional_join_le_lt\<close>: every condition but
  \<^verbatim>\<open>!=\<close> narrows the row labels of both sides; the last ordering condition met is
  remembered in \<open>lt_gt\<close>. \<open>None\<close> is the early \<^verbatim>\<open>return None\<close>.
\<close>

fun narrow_indices ::
  "('a::linorder) frame \<Rightarrow> 'a frame \<Rightarrow> condition list \<Rightarrow> nat list \<times> nat list \<times> condition option \<Rightarrow>
   error + (nat list \<times> nat list \<times> condition option) option" where
  "narrow_indices df right [] st = Inr (Some st)"
| "narrow_indices df right ((left_on, right_on, op) # conditions) (df_index, right_index, lt_gt) =
     (if op \<notin> less_than_join_types \<union> greater_than_join_types \<and> op = NOT_EQUAL then
        narrow_indices df right conditions (df_index, right_index, lt_gt)
      else
        let lt_gt = (if op \<in> less_than_join_types \<union> greater_than_join_types
                     then Some (left_on, right_on, op) else lt_gt) in
        rbind (loc_col df df_index left_on) (\<lambda>left_c.
        rbind (loc_col right right_index right_on) (\<lambda>right_c.
        rbind (generic_func_cond_join left_c right_c op 2) (\<lambda>result.
        case result of None \<Rightarrow> Inr None
        | Some m \<Rightarrow>
            (case unpack_first_two m of (df_index, right_index) \<Rightarrow>
               narrow_indices df right conditions (df_index, right_index, lt_gt))))))"

text \<open>
  The loop over the left rows: each row scans its range \<open>[lo, hi)\<close> of the right rows
  with the second condition and keeps the matches. The result is
  \<open>(index_df, index_right, repeater)\<close>.
\<close>

fun scan_ranges ::
  "JoinOperator \<Rightarrow> ('a::linorder) option list \<Rightarrow> nat list \<Rightarrow> (nat \<times> 'a option \<times> int \<times> int) list \<Rightarrow>
   nat list \<times> nat list list \<times> int list" where
  "scan_ranges op right_c right_index [] = ([], [], [])"
| "scan_ranges op right_c right_index ((indx, val, lo, hi) # rows) =
     (let search = py_slice right_c lo hi;
          indexer = py_slice right_index lo hi;
          m = map (operator_map op val) search
      in if \<not> (\<exists>b \<in> set m. b) then scan_ranges op right_c right_index rows
         else
           let indexer = compress m indexer in
           case scan_ranges op right_c right_index rows of (index_df, index_right, repeater) \<Rightarrow>
             (indx # index_df, indexer # index_right, int (length indexer) # repeater))"

text \<open>\<^verbatim>\<open>_multiple_conditional_join_le_lt\<close>.\<close>

definition multiple_conditional_join_le_lt ::
  "('a::linorder) frame \<Rightarrow> 'a frame \<Rightarrow> condition list \<Rightarrow> error + matches option" where
  "multiple_conditional_join_le_lt df right conditions =
     rbind (narrow_indices df right conditions (frame_index df, frame_index right, None)) (\<lambda>narrowed.
     case narrowed of None \<Rightarrow> Inr None
     | Some (df_index, right_index, lt_gt) \<Rightarrow>
     rbind (case conditions of [] \<Rightarrow> Inl IndexError
            | c # _ \<Rightarrow>
                if snd (snd c) \<notin> less_than_join_types \<union> greater_than_join_types then
                  (case lt_gt of None \<Rightarrow> Inl (ValueError ''list.remove(x): x not in list'')
                   | Some g \<Rightarrow>
                       if g \<in> set conditions then Inr (g # remove1 g conditions)
                       else Inl (ValueError ''list.remove(x): x not in list''))
                else Inr conditions) (\<lambda>conditions.
     case conditions of [] \<Rightarrow> Inl (ValueError ''not enough values to unpack'')
     | (left_on, right_on, op) # rest \<Rightarrow>
     rbind (loc_col df df_index left_on) (\<lambda>left_c.
     rbind (loc_col right right_index right_on) (\<lambda>right_c.
     rbind (generic_func_cond_join left_c right_c op 2) (\<lambda>result.
     case result of None \<Rightarrow> Inr None
     | Some m \<Rightarrow>
     rbind (unpack_bounds m) (\<lambda>(df_index, right_index, search_indices, indices).
     case (if op \<in> less_than_join_types then (search_indices, indices)
           else (indices, search_indices)) of (low, high) \<Rightarrow>
     case rest of [] \<Rightarrow> Inl (ValueError ''not enough values to unpack'')
     | (left_on, right_on, op) # rest \<Rightarrow>
     rbind (loc_col df df_index left_on) (\<lambda>left_c.
     rbind (loc_col right right_index right_on) (\<lambda>right_c.
     case scan_ranges op (map snd right_c) right_index
            (zip df_index (zip (map snd left_c) (zip low high))) of
       (index_df, index_right, repeater) \<Rightarrow>
     if index_df = [] then Inr None
     else
       rbind (np_repeat index_df repeater) (\<lambda>df_index.
       let right_index = concat index_right in
       if rest = [] then Inr (Some (Pairs df_index right_index))
       else
         rbind (mask_loop
                  (\<lambda>(left_on, right_on, op).
                     rbind (loc_col df df_index left_on) (\<lambda>left_c.
                     rbind (loc_col right right_index right_on) (\<lambda>right_c.
                     Inr (map snd left_c, map snd right_c))))
                  rest None) (\<lambda>msk.
         rbind (apply_mask msk df_index right_index) (\<lambda>masked.
         case masked of None \<Rightarrow> Inr None
         | Some (df_index, right_index) \<Rightarrow> Inr (Some (Pairs df_index right_index)))))))))))))"

section \<open>Validation and type gate\<close>

text \<open>
  The arguments of a call are Python objects: the conditions, \<^verbatim>\<open>how\<close> and
  \<^verbatim>\<open>sort_by_appearance\<close> may be of any type, and \<^verbatim>\<open>right\<close> may be a table, a series
  (with a name or without) or something else.
\<close>

datatype pyobj = PyStr string | PyTuple "pyobj list" | PyBool bool | PyInt int | PyNone

datatype 'a pandas_obj =
  DataFrame "'a frame"
| Series "string option" dtype "nat list" "'a option list"
| NotPandas

text \<open>The classes \<^verbatim>\<open>_JoinTypes\<close>, and the operator and join type that a string names.\<close>

datatype JoinTypes = INNER | LEFT | RIGHT

fun jointype_value :: "JoinTypes \<Rightarrow> string" where
  "jointype_value INNER = ''inner''"
| "jointype_value LEFT = ''left''"
| "jointype_value RIGHT = ''right''"

definition operator_of_value :: "string \<Rightarrow> JoinOperator option" where
  "operator_of_value s =
     find (\<lambda>op. operator_value op = s)
       [GREATER_THAN, LESS_THAN, GREATER_THAN_OR_EQUAL, LESS_THAN_OR_EQUAL, STRICTLY_EQUAL, NOT_EQUAL]"

definition jointype_of_value :: "string \<Rightarrow> JoinTypes option" where
  "jointype_of_value s = find (\<lambda>t. jointype_value t = s) [INNER, LEFT, RIGHT]"

text \<open>
  Modelled from the spec: \<^verbatim>\<open>janitor.utils.check\<close> and \<^verbatim>\<open>janitor.utils.check_column\<close>
  are called by the validation but their code is not part of the sources at hand. The
  spec says of every check of the validation that ``any violation fails with a
  ValueError-kind error carrying a descriptive message'': \<open>check\<close> fails so when the value
  is of none of the expected types, \<open>check_column\<close> when the table has no such column.
\<close>

definition check :: "string \<Rightarrow> bool \<Rightarrow> error + unit" where
  "check varname is_expected_type =
     (if is_expected_type then Inr ()
      else Inl (ValueError (varname @ '' should be one of the expected types'')))"

definition check_column :: "'a frame \<Rightarrow> string \<Rightarrow> error + unit" where
  "check_column df column_name =
     (if column_name \<in> set (map fst (frame_columns df)) then Inr ()
      else Inl (ValueError (column_name @ '' not present in dataframe columns'')))"

fun is_str :: "pyobj \<Rightarrow> bool" where
  "is_str (PyStr s) = True"
| "is_str _ = False"

fun is_tuple :: "pyobj \<Rightarrow> bool" where
  "is_tuple (PyTuple xs) = True"
| "is_tuple _ = False"

fun is_bool :: "pyobj \<Rightarrow> bool" where
  "is_bool (PyBool b) = True"
| "is_bool _ = False"

text \<open>\<^verbatim>\<open>_check_operator\<close>.\<close>

definition check_operator :: "string \<Rightarrow> error + JoinOperator" where
  "check_operator op =
     (case operator_of_value op of
        None \<Rightarrow> Inl (ValueError ''The conditional join operator should be one of >, <, >=, <=, ==, !='')
      | Some v \<Rightarrow> Inr v)"

text \<open>
  The two loops of \<^verbatim>\<open>_conditional_join_preliminary_checks\<close> over the conditions: the
  first checks that each is a tuple of three elements, the second checks the elements
  of each. The conditions that pass are kept with their operator read.
\<close>

fun check_condition_shapes :: "pyobj list \<Rightarrow> error + unit" where
  "check_condition_shapes [] = Inr ()"
| "check_condition_shapes (condition # conditions) =
     rbind (check ''condition'' (is_tuple condition)) (\<lambda>_.
     (case condition of
        PyTuple xs \<Rightarrow>
          if length xs \<noteq> 3 then Inl (ValueError ''condition should have only three elements.'')
          else check_condition_shapes conditions
      | _ \<Rightarrow> Inl TypeError))"

fun check_condition_fields ::
  "'a frame \<Rightarrow> 'a frame \<Rightarrow> pyobj list \<Rightarrow> error + condition list" where
  "check_condition_fields df right [] = Inr []"
| "check_condition_fields df right (condition # conditions) =
     (case condition of
        PyTuple [left_on, right_on, op] \<Rightarrow>
          rbind (check ''left_on'' (is_str left_on)) (\<lambda>_.
          rbind (check ''right_on'' (is_str right_on)) (\<lambda>_.
          rbind (check ''operator'' (is_str op)) (\<lambda>_.
          (case (left_on, right_on, op) of
             (PyStr left_on, PyStr right_on, PyStr op) \<Rightarrow>
               rbind (check_column df left_on) (\<lambda>_.
               rbind (check_column right right_on) (\<lambda>_.
               rbind (check_operator op) (\<lambda>op.
               rbind (check_condition_fields df right conditions) (\<lambda>rest.
               Inr ((left_on, right_on, op) # rest)))))
           | _ \<Rightarrow> Inl TypeError))))
      | _ \<Rightarrow> Inl (ValueError ''not enough values to unpack''))"

text \<open>
  \<^verbatim>\<open>_conditional_join_preliminary_checks\<close>. The copies \<^verbatim>\<open>df.copy()\<close> and
  \<^verbatim>\<open>right.copy()\<close> have the values of the originals.
\<close>

definition conditional_join_preliminary_checks ::
  "'a frame \<Rightarrow> 'a pandas_obj \<Rightarrow> pyobj list \<Rightarrow> pyobj \<Rightarrow> pyobj \<Rightarrow>
   error + 'a frame \<times> 'a frame \<times> condition list \<times> JoinTypes \<times> bool" where
  "conditional_join_preliminary_checks df right conditions how sort_by_appearance =
     (if df_empty df then Inl (ValueError ''The dataframe on the left should not be empty.'')
      else if frame_multi df then
        Inl (ValueError ''MultiIndex columns are not supported for conditional_join.'')
      else
        rbind (check ''`right`'' (right \<noteq> NotPandas)) (\<lambda>_.
        rbind (case right of
                 DataFrame f \<Rightarrow> Inr f
               | Series name t idx vs \<Rightarrow>
                   if name = None \<or> name = Some [] then
                     Inl (ValueError ''Unnamed Series are not supported for conditional_join.'')
                   else Inr \<lparr>frame_index = idx, frame_multi = False,
                             frame_columns = [(the name, t, vs)]\<rparr>
               | NotPandas \<Rightarrow> Inl TypeError) (\<lambda>right.
        if df_empty right then
          Inl (ValueError ''The Pandas object on the right should not be empty.'')
        else if frame_multi right then
          Inl (ValueError ''MultiIndex columns are not supported for conditional joins.'')
        else if conditions = [] then
          Inl (ValueError ''Kindly provide at least one join condition.'')
        else
          rbind (check_condition_shapes conditions) (\<lambda>_.
          rbind (check_condition_fields df right conditions) (\<lambda>conditions.
          rbind (check ''how'' (is_str how)) (\<lambda>_.
          (case how of
             PyStr h \<Rightarrow>
               (case jointype_of_value h of
                  None \<Rightarrow> Inl (ValueError ''`how` should be one of inner, left, right.'')
                | Some how \<Rightarrow>
                    rbind (check ''sort_by_appearance'' (is_bool sort_by_appearance)) (\<lambda>_.
                    (case sort_by_appearance of
                       PyBool b \<Rightarrow> Inr (df, right, conditions, how, b)
                     | _ \<Rightarrow> Inl TypeError)))
           | _ \<Rightarrow> Inl TypeError)))))))"

text \<open>The type predicates of pandas on the families of the model.\<close>

definition permitted_types :: "(dtype \<Rightarrow> bool) list" where
  "permitted_types =
     [\<lambda>t. t = Datetime64, \<lambda>t. t = Integer, \<lambda>t. t = Float, \<lambda>t. t = String, \<lambda>t. t = Categorical]"

text \<open>\<^verbatim>\<open>_conditional_join_type_check\<close>, on the types of the two columns.\<close>

definition conditional_join_type_check :: "dtype \<Rightarrow> dtype \<Rightarrow> JoinOperator \<Rightarrow> error + unit" where
  "conditional_join_type_check left_column right_column op =
     (if \<not> (\<exists>func \<in> set permitted_types. func left_column) then
        Inl (ValueError ''conditional_join only supports string, category, integer, float or date dtypes.'')
      else if \<not> (\<exists>func \<in> set permitted_types. func left_column \<and> func right_column) then
        Inl (ValueError ''Both columns should have the same type.'')
      else if left_column = Categorical \<and> op \<noteq> STRICTLY_EQUAL then
        Inl (ValueError ''For categorical columns, only the `==` operator is supported.'')
      else if left_column = String \<and> op \<noteq> STRICTLY_EQUAL then
        Inl (ValueError ''For string columns, only the `==` operator is supported.'')
      else Inr ())"

text \<open>
  The loop of \<^verbatim>\<open>_conditional_join_compute\<close> over the conditions: the type check of
  each, and the flags \<open>(eq_check, less_great)\<close>.
\<close>

fun type_check_loop ::
  "'a frame \<Rightarrow> 'a frame \<Rightarrow> condition list \<Rightarrow> bool \<times> bool \<Rightarrow> error + bool \<times> bool" where
  "type_check_loop df right [] flags = Inr flags"
| "type_check_loop df right ((left_on, right_on, op) # conditions) (eq_check, less_great) =
     rbind (column_dtype df left_on) (\<lambda>left_c.
     rbind (column_dtype right right_on) (\<lambda>right_c.
     rbind (conditional_join_type_check left_c right_c op) (\<lambda>_.
     type_check_loop df right conditions
       (if op = STRICTLY_EQUAL then (True, less_great)
        else if op \<in> less_than_join_types \<union> greater_than_join_types then (eq_check, True)
        else (eq_check, less_great)))))"

section \<open>Result assembler\<close>

text \<open>
  The joined table. Its columns are the columns of both sides under the labels
  \<open>(''left'', c)\<close> and \<open>(''right'', c)\<close>, each with its type. A row is made of a row of
  the left table and a row of the right table, given by their positions; a side that
  the join filled with nulls is \<open>None\<close>.
\<close>

record joined =
  out_columns :: "((string \<times> string) \<times> dtype) list"
  out_rows :: "(nat option \<times> nat option) list"

definition namespaced :: "string \<Rightarrow> 'a frame \<Rightarrow> ((string \<times> string) \<times> dtype) list" where
  "namespaced side df = map (\<lambda>(c, t, vs). ((side, c), t)) (frame_columns df)"

text \<open>\<^verbatim>\<open>float if dtype.kind == "i" else dtype\<close>.\<close>

definition widen :: "((string \<times> string) \<times> dtype) list \<Rightarrow> ((string \<times> string) \<times> dtype) list" where
  "widen cols = map (\<lambda>(key, t). (key, if t = Integer then Float else t)) cols"

text \<open>\<^verbatim>\<open>_create_conditional_join_empty_frame\<close>.\<close>

definition create_conditional_join_empty_frame :: "'a frame \<Rightarrow> 'a frame \<Rightarrow> JoinTypes \<Rightarrow> joined" where
  "create_conditional_join_empty_frame df right how =
     (case how of
        INNER \<Rightarrow> \<lparr>out_columns = namespaced ''left'' df @ namespaced ''right'' right, out_rows = []\<rparr>
      | LEFT \<Rightarrow>
          \<lparr>out_columns = namespaced ''left'' df @ widen (namespaced ''right'' right),
           out_rows = map (\<lambda>p. (Some p, None)) [0..<nrows df]\<rparr>
      | RIGHT \<Rightarrow>
          \<lparr>out_columns = widen (namespaced ''left'' df) @ namespaced ''right'' right,
           out_rows = map (\<lambda>p. (None, Some p)) [0..<nrows right]\<rparr>)"

text \<open>
  \<^verbatim>\<open>np.lexsort((right_index, left_index))\<close>: the positions in the order of the pairs
  \<open>(left, right)\<close>, ties in their first order.
\<close>

definition lexsort :: "nat list \<Rightarrow> nat list \<Rightarrow> int list" where
  "lexsort right_index left_index =
     map (\<lambda>k. int k)
       (sort_key (\<lambda>k. (left_index ! k, right_index ! k))
          [0..<min (length left_index) (length right_index)])"

text \<open>
  \<^verbatim>\<open>DataFrame.join\<close> of pandas on the row labels, for \<^verbatim>\<open>how="left"\<close>: every row of the
  calling table in its order, once for each row of the other table under its label, or
  once with nulls when there is none. The other table is given by the labels of its rows
  and what each row stands for. For \<^verbatim>\<open>how="right"\<close> the roles are exchanged: the rows of
  the other table keep their order.
\<close>

definition join_on_labels :: "nat list \<Rightarrow> (nat \<times> 'r) list \<Rightarrow> (nat \<times> 'r option) list" where
  "join_on_labels idx other =
     concat (map (\<lambda>p.
        (case map snd (filter (\<lambda>row. fst row = idx ! p) other) of
           [] \<Rightarrow> [(p, None)]
         | ms \<Rightarrow> map (\<lambda>m. (p, Some m)) ms))
        [0..<length idx])"

text \<open>\<^verbatim>\<open>_create_conditional_join_frame\<close>.\<close>

definition create_conditional_join_frame ::
  "'a frame \<Rightarrow> 'a frame \<Rightarrow> nat list \<Rightarrow> nat list \<Rightarrow> JoinTypes \<Rightarrow> bool \<Rightarrow> error + joined" where
  "create_conditional_join_frame df right left_index right_index how sort_by_appearance =
     rbind (if sort_by_appearance then
              let sorter = lexsort right_index left_index in
              rbind (take_idx right_index sorter) (\<lambda>right_index.
              rbind (take_idx left_index sorter) (\<lambda>left_index.
              Inr (left_index, right_index)))
            else Inr (left_index, right_index)) (\<lambda>(left_index, right_index).
     let cols = namespaced ''left'' df @ namespaced ''right'' right in
     case how of
       INNER \<Rightarrow>
         rbind (get_locs (frame_index df) left_index) (\<lambda>ls.
         rbind (get_locs (frame_index right) right_index) (\<lambda>rs.
         if length ls \<noteq> length rs then Inl (ValueError ''Length mismatch'')
         else Inr \<lparr>out_columns = cols, out_rows = map2 (\<lambda>l r. (Some l, Some r)) ls rs\<rparr>))
     | LEFT \<Rightarrow>
         rbind (get_locs (frame_index right) right_index) (\<lambda>rs.
         if length rs \<noteq> length left_index then Inl (ValueError ''Length mismatch'')
         else Inr \<lparr>out_columns = cols,
                   out_rows = map (\<lambda>(p, m). (Some p, m))
                                (join_on_labels (frame_index df) (zip left_index rs))\<rparr>)
     | RIGHT \<Rightarrow>
         rbind (get_locs (frame_index df) left_index) (\<lambda>ls.
         if length ls \<noteq> length right_index then Inl (ValueError ''Length mismatch'')
         else Inr \<lparr>out_columns = cols,
                   out_rows = map (\<lambda>(p, m). (m, Some p))
                                (join_on_labels (frame_index right) (zip right_index ls))\<rparr>))"

section \<open>The join\<close>

text \<open>\<^verbatim>\<open>_conditional_join_compute\<close>, which \<^verbatim>\<open>conditional_join\<close> calls with its arguments.\<close>

definition conditional_join_compute ::
  "('a::linorder) frame \<Rightarrow> 'a pandas_obj \<Rightarrow> pyobj list \<Rightarrow> pyobj \<Rightarrow> pyobj \<Rightarrow> error + joined" where
  "conditional_join_compute df right conditions how sort_by_appearance =
     rbind (conditional_join_preliminary_checks df right conditions how sort_by_appearance)
       (\<lambda>(df, right, conditions, how, sort_by_appearance).
     rbind (type_check_loop df right conditions (False, False)) (\<lambda>(eq_check, less_great).
     let df = reset_range_index df;
         right = reset_range_index right
     in
     rbind
       (if length conditions = 1 then
          (case hd conditions of (left_on, right_on, op) \<Rightarrow>
             rbind (getcol df left_on) (\<lambda>left_c.
             rbind (getcol right right_on) (\<lambda>right_c.
             let left_c = (if eq_check \<and> hasnans left_c then series_dropna left_c else left_c);
                 right_c = (if eq_check \<and> hasnans right_c then series_dropna right_c else right_c)
             in generic_func_cond_join left_c right_c op 1)))
        else if eq_check then multiple_conditional_join_eq df right conditions
        else if less_great then multiple_conditional_join_le_lt df right conditions
        else multiple_conditional_join_ne df right conditions) (\<lambda>result.
     case result of
       None \<Rightarrow> Inr (create_conditional_join_empty_frame df right how)
     | Some m \<Rightarrow>
         rbind (unpack_pairs m) (\<lambda>(left_c, right_c).
         create_conditional_join_frame df right left_c right_c how sort_by_appearance))))"

definition conditional_join ::
  "('a::linorder) frame \<Rightarrow> 'a pandas_obj \<Rightarrow> pyobj list \<Rightarrow> pyobj \<Rightarrow> pyobj \<Rightarrow> error + joined" where
  "conditional_join df right conditions how sort_by_appearance =
     conditional_join_compute df right conditions how sort_by_appearance"

section \<open>Reference semantics of a condition\<close>

text \<open>
  The naive join that the spec compares the engine with: every row of the left column
  is paired with every row of the right column, and the pairs of labels on which the
  predicate holds are kept, left rows outermost. It follows the spec's words (``the
  boolean-mask intersection of each condition evaluated independently over the cross
  product''), not the engine.
\<close>

definition cross_select ::
  "('v \<Rightarrow> 'v \<Rightarrow> bool) \<Rightarrow> (nat \<times> 'v) list \<Rightarrow> (nat \<times> 'v) list \<Rightarrow> (nat \<times> nat) list" where
  "cross_select P left_c right_c =
     concat (map (\<lambda>l. map (\<lambda>r. (fst l, fst r)) (filter (\<lambda>r. P (snd l) (snd r)) right_c)) left_c)"

text \<open>A list of matched pairs as a matcher returns it: no match is \<open>None\<close>.\<close>

definition pairs_result :: "(nat \<times> nat) list \<Rightarrow> matches option" where
  "pairs_result ps = (if ps = [] then None else Some (Pairs (map fst ps) (map snd ps)))"

text \<open>
  The precondition of \<open>interval_ranges\<close>: two arrays of one length, not empty, each run
  \<open>[indices[k], right[k])\<close> holding at least one position.
\<close>

definition interval_pre :: "int list \<Rightarrow> int list \<Rightarrow> bool" where
  "interval_pre indices right = (indices \<noteq> [] \<and> list_all2 (\<lambda>i r. i < r) indices right)"

section \<open>Auxiliary definitions for the proofs\<close>

text \<open>
  The array of increments that \<open>interval_ranges\<close> builds before its last cumulative
  sum: each run \<open>[i, r)\<close> starts with the jump from the end of the run before it and
  continues with ones. \<open>run_total\<close> is the number of positions of all runs.
\<close>

fun run_pattern :: "int \<Rightarrow> (int \<times> int) list \<Rightarrow> int list" where
  "run_pattern p [] = []"
| "run_pattern p ((i, r) # ps) = (i - p + 1) # replicate (nat (r - i - 1)) 1 @ run_pattern r ps"

definition run_total :: "(int \<times> int) list \<Rightarrow> int" where
  "run_total ps = sum_list (map (\<lambda>(i, r). r - i) ps)"

definition row_arrays :: "(nat \<times> 'a \<Rightarrow> int) \<Rightarrow> (nat \<times> 'a) list \<Rightarrow> 'a list \<times> nat list \<times> int list" where
  "row_arrays s rows = (map snd rows, map fst rows, map s rows)"

definition lt_point :: "bool \<Rightarrow> ('a::linorder) list \<Rightarrow> nat \<times> 'a \<Rightarrow> int" where
  "lt_point strict ys r = (if strict then searchsorted_right ys (snd r) else searchsorted_left ys (snd r))"

definition lt_rows :: "bool \<Rightarrow> ('a::linorder) series \<Rightarrow> 'a series \<Rightarrow> (nat \<times> 'a) list" where
  "lt_rows strict left_c right_c =
     filter (\<lambda>r. lt_point strict (map snd (sort_key snd (dropna right_c))) r
                  \<noteq> int (length (dropna right_c))) (dropna left_c)"

definition gt_point :: "bool \<Rightarrow> ('a::linorder) list \<Rightarrow> nat \<times> 'a \<Rightarrow> int" where
  "gt_point strict ys r = (if strict then searchsorted_left ys (snd r) else searchsorted_right ys (snd r))"

definition gt_rows :: "bool \<Rightarrow> ('a::linorder) series \<Rightarrow> 'a series \<Rightarrow> (nat \<times> 'a) list" where
  "gt_rows strict left_c right_c =
     filter (\<lambda>r. \<not> gt_point strict (map snd (sort_key snd (dropna right_c))) r < 1) (dropna left_c)"

section \<open>Interval expansion: correctness\<close>

lemma cumsum_from_append:
  "cumsum_from a (xs @ ys) = cumsum_from a xs @ cumsum_from (a + sum_list xs) ys"
  by (induction xs arbitrary: a) (simp_all add: add.assoc)

lemma cumsum_from_ones: "cumsum_from a (replicate k 1) = map (\<lambda>j. a + 1 + int j) [0..<k]"
proof (induction k arbitrary: a)
  case 0 show ?case by simp
next
  case (Suc k)
  have "map (\<lambda>j. a + 1 + int j) [0..<Suc k] = (a + 1) # map (\<lambda>j. a + 1 + 1 + int j) [0..<k]"
    by (simp add: upt_conv_Cons map_Suc_upt[symmetric] del: upt_Suc)
  then show ?case using Suc[of "a + 1"] by simp
qed

lemma upto_as_map: "i \<le> j + 1 \<Longrightarrow> [i..j] = map (\<lambda>k. i + int k) [0..<nat (j - i + 1)]"
proof (induction "nat (j - i + 1)" arbitrary: i j)
  case 0 then show ?case by simp
next
  case (Suc n)
  then have ij: "i \<le> j" by linarith
  have n: "n = nat ((j - 1) - i + 1)" using Suc(2) by linarith
  have "[i..j] = [i..j - 1] @ [j]" using ij by (simp add: upto_rec2)
  also have "[i..j - 1] = map (\<lambda>k. i + int k) [0..<nat ((j - 1) - i + 1)]"
    using Suc(1)[OF n] ij by simp
  finally show ?case using Suc(2) ij n by (simp add: nat_add_distrib)
qed

lemma cumsum_run_pattern:
  "\<forall>(i, r) \<in> set ps. i < r \<Longrightarrow>
   cumsum_from (p - 1) (run_pattern p ps) = concat (map (\<lambda>(i, r). [i..r - 1]) ps)"
proof (induction ps arbitrary: p)
  case Nil show ?case by simp
next
  case (Cons a ps)
  obtain i r where a: "a = (i, r)" by (cases a)
  have ir: "i < r" using Cons.prems a by simp
  have rest: "cumsum_from (r - 1) (run_pattern r ps) = concat (map (\<lambda>(i, r). [i..r - 1]) ps)"
    using Cons.IH[of r] Cons.prems by simp
  have ones: "cumsum_from i (replicate (nat (r - i - 1)) 1) = [i + 1..r - 1]"
    using ir by (simp add: cumsum_from_ones upto_as_map add.assoc)
  have "[i..r - 1] = i # [i + 1..r - 1]" using ir by (simp add: upto_rec1)
  then show ?case using ir rest ones a
    by (simp add: cumsum_from_append sum_list_replicate)
qed

lemma np_index_nonneg: "0 \<le> i \<Longrightarrow> i < int n \<Longrightarrow> np_index n i = Some (nat i)"
  by (simp add: np_index_def)

lemma setitems_length: "setitems xs js vs = Inr ys \<Longrightarrow> length ys = length xs"
  by (induction xs js vs rule: setitems.induct)
     (auto simp: setitem_def split: sum.splits option.splits)

lemma setitems_snoc:
  "length js = length vs \<Longrightarrow>
   setitems xs (js @ [j]) (vs @ [w]) = rbind (setitems xs js vs) (\<lambda>xs'. setitem xs' j w)"
  by (induction js vs arbitrary: xs rule: list_induct2)
     (auto simp: rbind_def split: sum.splits)

lemma setitems_append_right:
  "setitems A js vs = Inr A' \<Longrightarrow> \<forall>j \<in> set js. 0 \<le> j \<Longrightarrow> setitems (A @ B) js vs = Inr (A' @ B)"
proof (induction A js vs arbitrary: A' rule: setitems.induct)
  case (1 xs i js v vs)
  from "1.prems" obtain xs' where s: "setitem xs i v = Inr xs'" and r: "setitems xs' js vs = Inr A'"
    by (auto split: sum.splits)
  from s "1.prems"(2) have i: "0 \<le> i" "i < int (length xs)" and xs': "xs' = xs[nat i := v]"
    by (auto simp: setitem_def np_index_def split: option.splits if_splits)
  have "setitem (xs @ B) i v = Inr (xs' @ B)"
    using i xs' by (simp add: setitem_def np_index_nonneg list_update_append1)
  moreover have "setitems (xs' @ B) js vs = Inr (A' @ B)"
    using "1.IH"[OF s r] "1.prems"(2) by simp
  ultimately show ?case by simp
qed simp_all


lemma cumsum_snoc: "cumsum (xs @ [x]) = cumsum xs @ [sum_list xs + x]"
  by (simp add: cumsum_def cumsum_from_append)

lemma length_cumsum_from [simp]: "length (cumsum_from a xs) = length xs"
  by (induction xs arbitrary: a) simp_all

lemma last_cumsum: "xs \<noteq> [] \<Longrightarrow> last (cumsum xs) = sum_list xs"
  by (induction xs rule: rev_induct) (simp_all add: cumsum_snoc)

lemma cumsum_pos: "\<forall>x \<in> set xs. 0 < x \<Longrightarrow> \<forall>c \<in> set (cumsum xs). 0 < c"
proof (induction xs rule: rev_induct)
  case Nil show ?case by (simp add: cumsum_def)
next
  case (snoc x xs)
  then have "\<forall>c \<in> set (cumsum xs). 0 < c" by simp
  moreover have "0 \<le> sum_list xs" using snoc.prems by (intro sum_list_nonneg) auto
  ultimately show ?case using snoc.prems by (auto simp: cumsum_snoc)
qed

lemma cumsum_from_Nil_iff [simp]: "cumsum_from a xs = [] \<longleftrightarrow> xs = []"
  by (cases xs) simp_all

lemma run_total_nonneg: "\<forall>(i, r) \<in> set ps. i < r \<Longrightarrow> 0 \<le> run_total ps"
  unfolding run_total_def by (intro sum_list_nonneg) auto

lemma run_total_pos: "ps \<noteq> [] \<Longrightarrow> \<forall>(i, r) \<in> set ps. i < r \<Longrightarrow> 0 < run_total ps"
proof (cases ps)
  case Nil
  assume "ps \<noteq> []" with Nil show ?thesis by simp
next
  case (Cons a qs)
  assume all: "\<forall>(i, r) \<in> set ps. i < r"
  obtain i r where a: "a = (i, r)" by (cases a)
  have "0 \<le> run_total qs" using all Cons by (intro run_total_nonneg) auto
  moreover have "i < r" using all Cons a by simp
  ultimately show ?thesis using Cons a by (simp add: run_total_def)
qed

lemma run_pattern_append:
  "run_pattern p (ps @ qs) = run_pattern p ps @ run_pattern (if ps = [] then p else snd (last ps)) qs"
  by (induction p ps rule: run_pattern.induct) auto

lemma length_run_pattern:
  "\<forall>(i, r) \<in> set ps. i < r \<Longrightarrow> int (length (run_pattern p ps)) = run_total ps"
  unfolding run_total_def by (induction p ps rule: run_pattern.induct) auto

lemma replicate_pos: "0 < k \<Longrightarrow> replicate (nat k) x = x # replicate (nat (k - 1)) x"
proof -
  assume "0 < k"
  then have "nat k = Suc (nat (k - 1))" by linarith
  then show ?thesis by simp
qed

lemma butlast_snoc_last: "xs \<noteq> [] \<Longrightarrow> butlast xs @ [last xs] = xs"
  by simp

lemma scatter_run_pattern:
  "ps \<noteq> [] \<Longrightarrow> \<forall>(i, r) \<in> set ps. i < r \<Longrightarrow>
   setitems ((replicate (nat (run_total ps)) 1)[0 := fst (hd ps)])
     (butlast (cumsum (map (\<lambda>(i, r). r - i) ps)))
     (map (\<lambda>x. x + 1) (map2 (\<lambda>x y. x - y) (tl (map fst ps)) (butlast (map snd ps))))
   = Inr (run_pattern 1 ps)"
proof (induction ps rule: rev_nonempty_induct)
  case (single x)
  obtain i r where x: "x = (i, r)" by (cases x)
  then have "i < r" using single by simp
  then have "replicate (nat (r - i)) (1::int) = 1 # replicate (nat (r - i - 1)) 1"
    using replicate_pos[of "r - i" 1] by simp
  then show ?case using x by (simp add: run_total_def cumsum_def)
next
  case (snoc x ps)
  obtain i r where x: "x = (i, r)" by (cases x)
  have ir: "i < r" and all: "\<forall>(i, r) \<in> set ps. i < r" using snoc.prems x by auto
  let ?lens = "map (\<lambda>(i, r). r - i) ps"
  let ?A = "(replicate (nat (run_total ps)) 1)[0 := fst (hd ps)]"
  let ?B = "replicate (nat (r - i)) (1::int)"
  let ?js = "butlast (cumsum ?lens)"
  let ?vs = "map (\<lambda>x. x + 1) (map2 (\<lambda>x y. x - y) (tl (map fst ps)) (butlast (map snd ps)))"
  have tp: "0 < run_total ps" using run_total_pos[OF snoc.hyps(1) all] .
  have IH: "setitems ?A ?js ?vs = Inr (run_pattern 1 ps)" using snoc.IH all by simp
  have lenpat: "length (run_pattern 1 ps) = nat (run_total ps)"
    using length_run_pattern[OF all, of 1] by linarith
  have cs: "cumsum ?lens \<noteq> []" using snoc.hyps(1) by (simp add: cumsum_def)
  have js_nonneg: "\<forall>j \<in> set ?js. 0 \<le> j"
  proof -
    have "\<forall>x \<in> set ?lens. 0 < x" using all by auto
    from cumsum_pos[OF this] have "\<forall>c \<in> set (cumsum ?lens). 0 < c" .
    then show ?thesis by (meson in_set_butlastD less_imp_le)
  qed
  have total': "run_total (ps @ [x]) = run_total ps + (r - i)" by (simp add: run_total_def x)
  have rep: "replicate (nat (run_total (ps @ [x]))) (1::int) = replicate (nat (run_total ps)) 1 @ ?B"
    using tp ir by (simp add: total' nat_add_distrib replicate_add)
  have A': "(replicate (nat (run_total (ps @ [x]))) 1)[0 := fst (hd (ps @ [x]))] = ?A @ ?B"
    using tp snoc.hyps(1) by (simp add: rep list_update_append1)
  have js': "butlast (cumsum (map (\<lambda>(i, r). r - i) (ps @ [x]))) = ?js @ [run_total ps]"
  proof -
    have "butlast (cumsum ?lens) @ [last (cumsum ?lens)] = cumsum ?lens"
      using cs by (rule butlast_snoc_last)
    moreover have "last (cumsum ?lens) = run_total ps"
      using last_cumsum[of ?lens] snoc.hyps(1) by (simp add: run_total_def)
    ultimately have "cumsum ?lens = ?js @ [run_total ps]" by simp
    then show ?thesis by (simp add: cumsum_snoc x)
  qed
  have tl': "tl (map fst (ps @ [x])) = tl (map fst ps) @ [i]" using snoc.hyps(1) x by (cases ps) auto
  have bl': "butlast (map snd (ps @ [x])) = butlast (map snd ps) @ [snd (last ps)]"
  proof -
    have ne: "map snd ps \<noteq> []" using snoc.hyps(1) by simp
    have "butlast (map snd ps) @ [last (map snd ps)] = map snd ps"
      using ne by (rule butlast_snoc_last)
    moreover have "last (map snd ps) = snd (last ps)" using snoc.hyps(1) by (rule last_map)
    ultimately have "map snd ps = butlast (map snd ps) @ [snd (last ps)]" by simp
    then show ?thesis by (simp add: butlast_append)
  qed
  have lens: "length (tl (map fst ps)) = length (butlast (map snd ps))" by simp
  have vs': "map (\<lambda>x. x + 1) (map2 (\<lambda>x y. x - y) (tl (map fst (ps @ [x]))) (butlast (map snd (ps @ [x]))))
             = ?vs @ [i - snd (last ps) + 1]"
    unfolding tl' bl' using lens by simp
  have ljs: "length ?js = length ?vs" by (simp add: cumsum_def)
  have step1: "setitems (?A @ ?B) ?js ?vs = Inr (run_pattern 1 ps @ ?B)"
    using setitems_append_right[OF IH js_nonneg] .
  have Bsplit: "?B = 1 # replicate (nat (r - i - 1)) 1"
    using ir replicate_pos[of "r - i" 1] by simp
  have step2: "setitem (run_pattern 1 ps @ ?B) (run_total ps) (i - snd (last ps) + 1)
               = Inr (run_pattern 1 ps @ (i - snd (last ps) + 1) # replicate (nat (r - i - 1)) 1)"
  proof -
    have upd: "(run_pattern 1 ps @ 1 # replicate (nat (r - i - 1)) 1)[nat (run_total ps) := i - snd (last ps) + 1]
          = run_pattern 1 ps @ (i - snd (last ps) + 1) # replicate (nat (r - i - 1)) 1"
      unfolding lenpat[symmetric] by (rule list_update_length)
    have "np_index (length (run_pattern 1 ps @ ?B)) (run_total ps) = Some (nat (run_total ps))"
      using tp ir lenpat by (intro np_index_nonneg) simp_all
    then show ?thesis unfolding setitem_def using upd by (simp add: Bsplit)
  qed
  have "run_pattern 1 (ps @ [x]) = run_pattern 1 ps @ (i - snd (last ps) + 1) # replicate (nat (r - i - 1)) 1"
    using snoc.hyps(1) x by (simp add: run_pattern_append)
  then show ?case
    unfolding A' js' vs' using ljs step1 step2 by (simp add: setitems_snoc rbind_def)
qed


lemma getitem_last: "xs \<noteq> [] \<Longrightarrow> getitem xs (- 1) = Inr (last xs)"
proof -
  assume ne: "xs \<noteq> []"
  then have "np_index (length xs) (- 1) = Some (length xs - 1)"
    by (cases xs) (simp_all add: np_index_def)
  then show ?thesis using ne by (simp add: getitem_def last_conv_nth)
qed

lemma getitem_first: "xs \<noteq> [] \<Longrightarrow> getitem xs 0 = Inr (hd xs)"
  by (cases xs) (simp_all add: getitem_def np_index_def)

lemma setitem_first: "xs \<noteq> [] \<Longrightarrow> setitem xs 0 v = Inr (xs[0 := v])"
  by (cases xs) (simp_all add: setitem_def np_index_def)

lemma map2_sub_zip: "map2 (\<lambda>x y. x - y) (map snd ps) (map fst ps) = map (\<lambda>(i, r). r - i) ps"
  by (induction ps) auto

lemma interval_ranges_zip:
  assumes ne: "ps \<noteq> []" and all: "\<forall>(i, r) \<in> set ps. i < r"
  shows "interval_ranges (map fst ps) (map snd ps) = Inr (concat (map (\<lambda>(i, r). [i..r - 1]) ps))"
proof -
  let ?lens = "map (\<lambda>(i, r). r - i) ps"
  have sub: "np_sub (map snd ps) (map fst ps) = Inr ?lens"
    by (simp add: np_sub_def map2_sub_zip)
  have cne: "cumsum ?lens \<noteq> []" using ne by (simp add: cumsum_def)
  have tot: "getitem (cumsum ?lens) (- 1) = Inr (run_total ps)"
    using getitem_last[OF cne] last_cumsum[of ?lens] ne by (simp add: run_total_def)
  have tp: "0 < run_total ps" using run_total_pos[OF ne all] .
  have ones: "np_ones (run_total ps) = Inr (replicate (nat (run_total ps)) 1)"
    using tp by (simp add: np_ones_def)
  have first: "getitem (map fst ps) 0 = Inr (fst (hd ps))"
    using ne getitem_first[of "map fst ps"] by (simp add: hd_map)
  have set0: "setitem (replicate (nat (run_total ps)) (1::int)) 0 (fst (hd ps))
              = Inr ((replicate (nat (run_total ps)) 1)[0 := fst (hd ps)])"
    using tp by (intro setitem_first) simp
  have sub2: "np_sub (tl (map fst ps)) (butlast (map snd ps))
              = Inr (map2 (\<lambda>x y. x - y) (tl (map fst ps)) (butlast (map snd ps)))"
    by (simp add: np_sub_def)
  have "cumsum (run_pattern 1 ps) = concat (map (\<lambda>(i, r). [i..r - 1]) ps)"
    using cumsum_run_pattern[OF all, of 1] by (simp add: cumsum_def)
  then show ?thesis
    unfolding interval_ranges_def
    by (simp only: sub rbind_def tot ones first set0 sub2 scatter_run_pattern[OF ne all] Let_def
          sum.case)
qed

section \<open>Range matchers: closed forms\<close>

lemma compress_map: "compress (map p xs) (map f xs) = map f (filter p xs)"
  unfolding compress_def by (induction xs) auto

lemma discard_rows_filter:
  "discard_rows (map Q rows) (row_arrays s rows) = row_arrays s (filter (\<lambda>r. \<not> Q r) rows)"
proof (cases "\<exists>r \<in> set rows. Q r")
  case True
  show ?thesis using True unfolding discard_rows_def row_arrays_def
    by (auto simp: o_def compress_map)
next
  case False
  then have "filter (\<lambda>r. \<not> Q r) rows = rows" by (simp add: filter_id_conv)
  then show ?thesis using False unfolding discard_rows_def row_arrays_def by auto
qed

lemma take_idx_map:
  "\<forall>i \<in> set js. 0 \<le> i \<and> i < int (length xs) \<Longrightarrow> take_idx xs js = Inr (map (\<lambda>i. xs ! nat i) js)"
  by (induction js) (simp_all add: getitem_def np_index_nonneg)

lemma takeWhile_split:
  "(\<And>x. P x \<Longrightarrow> Q x) \<Longrightarrow> takeWhile Q xs = takeWhile P xs @ takeWhile Q (dropWhile P xs)"
  by (induction xs) auto

lemma ssl_le: "searchsorted_left ys x \<le> int (length ys)"
  by (simp add: searchsorted_left_def length_takeWhile_le)

lemma ssr_le: "searchsorted_right ys x \<le> int (length ys)"
  by (simp add: searchsorted_right_def length_takeWhile_le)

lemma ssl_nonneg: "0 \<le> searchsorted_left ys x" by (simp add: searchsorted_left_def)

lemma ssr_nonneg: "0 \<le> searchsorted_right ys x" by (simp add: searchsorted_right_def)

lemma ssl_le_ssr: "searchsorted_left ys x \<le> searchsorted_right ys (x::'a::linorder)"
proof -
  have "takeWhile (\<lambda>y. y \<le> x) ys = takeWhile (\<lambda>y. y < x) ys @ takeWhile (\<lambda>y. y \<le> x) (dropWhile (\<lambda>y. y < x) ys)"
    by (rule takeWhile_split) simp
  then have "length (takeWhile (\<lambda>y. y < x) ys) \<le> length (takeWhile (\<lambda>y. y \<le> x) ys)" by simp
  then show ?thesis by (simp add: searchsorted_left_def searchsorted_right_def)
qed

lemma nth_ssl_ge:
  "searchsorted_left ys x < int (length ys) \<Longrightarrow> x \<le> ys ! nat (searchsorted_left ys (x::'a::linorder))"
  using nth_length_takeWhile[of "\<lambda>y. y < x" ys] by (simp add: searchsorted_left_def)

lemma sorted_dropWhile_ge:
  "sorted ys \<Longrightarrow> z \<in> set (dropWhile P ys) \<Longrightarrow> hd (dropWhile P ys) \<le> (z::'a::linorder)"
proof -
  assume s: "sorted ys" and z: "z \<in> set (dropWhile P ys)"
  have "sorted (dropWhile P ys)" using s by (metis sorted_append takeWhile_dropWhile_id)
  then show ?thesis using z by (cases "dropWhile P ys") auto
qed

text \<open>Where the element at the left insertion point differs from x, both insertion points agree.\<close>

lemma ssr_eq_ssl:
  assumes s: "sorted ys" and lt: "searchsorted_left ys x < int (length ys)"
    and ne: "ys ! nat (searchsorted_left ys x) \<noteq> (x::'a::linorder)"
  shows "searchsorted_right ys x = searchsorted_left ys x"
proof -
  let ?P = "\<lambda>y. y < x" and ?Q = "\<lambda>y. y \<le> x"
  have len: "length (takeWhile ?P ys) < length ys" using lt by (simp add: searchsorted_left_def)
  have dne: "dropWhile ?P ys \<noteq> []" using len by (metis length_takeWhile_le takeWhile_eq_all_conv dropWhile_eq_Nil_conv less_irrefl)
  have hdn: "hd (dropWhile ?P ys) = ys ! length (takeWhile ?P ys)"
    using dne by (simp add: hd_dropWhile hd_conv_nth nth_append dropWhile_nth)
  have "x \<le> ys ! length (takeWhile ?P ys)" using nth_ssl_ge[OF lt] by (simp add: searchsorted_left_def)
  with ne have "x < hd (dropWhile ?P ys)" using hdn by (simp add: searchsorted_left_def)
  then have "takeWhile ?Q (dropWhile ?P ys) = []" using dne by (cases "dropWhile ?P ys") auto
  moreover have "takeWhile ?Q ys = takeWhile ?P ys @ takeWhile ?Q (dropWhile ?P ys)"
    by (rule takeWhile_split) simp
  ultimately show ?thesis by (simp add: searchsorted_left_def searchsorted_right_def)
qed

lemma map2_same: "map2 f (map g xs) (map h xs) = map (\<lambda>x. f (g x) (h x)) xs"
  by (induction xs) auto

lemma np_where_same:
  "np_where (map c xs) (map a xs) (map b xs) = map (\<lambda>x. if c x then a x else b x) xs"
  unfolding np_where_def by (induction xs) auto

lemma sorted_operands_eq:
  "sorted_operands left_c right_c =
     (map fst (dropna left_c), map snd (dropna left_c),
      map fst (sort_key snd (dropna right_c)), map snd (sort_key snd (dropna right_c)))"
proof -
  have "(if \<not> sorted (map snd (dropna right_c)) then sort_key snd (dropna right_c) else dropna right_c)
        = sort_key snd (dropna right_c)"
    by (simp add: sort_key_id_if_sorted)
  then show ?thesis unfolding sorted_operands_def Let_def by simp
qed

lemma less_than_strict_rows:
  fixes ys :: "('a::linorder) list"
  assumes srt: "sorted ys"
    and inb: "\<forall>r \<in> set rows. searchsorted_left ys (snd r) \<noteq> int (length ys)"
  shows "less_than_strict ys (row_arrays (\<lambda>r. searchsorted_left ys (snd r)) rows)
         = Inr (row_arrays (\<lambda>r. searchsorted_right ys (snd r))
                  (filter (\<lambda>r. searchsorted_right ys (snd r) \<noteq> int (length ys)) rows))"
proof -
  let ?sl = "\<lambda>r::nat \<times> 'a. searchsorted_left ys (snd r)"
  let ?sr = "\<lambda>r::nat \<times> 'a. searchsorted_right ys (snd r)"
  let ?eq = "\<lambda>r::nat \<times> 'a. snd r = ys ! nat (?sl r)"
  have lt: "\<forall>r \<in> set rows. ?sl r < int (length ys)"
    using inb ssl_le[of ys] by (metis le_less)
  have tk: "take_idx ys (map ?sl rows) = Inr (map (\<lambda>r. ys ! nat (?sl r)) rows)"
    using take_idx_map[of "map ?sl rows" ys] lt ssl_nonneg[of ys] by (simp add: o_def)
  have req: "map2 (\<lambda>a b. a = b) (map snd rows) (map (\<lambda>r. ys ! nat (?sl r)) rows) = map ?eq rows"
    by (rule map2_same)
  have pt: "\<And>r. r \<in> set rows \<Longrightarrow> (if ?eq r then ?sr r else ?sl r) = ?sr r"
    using ssr_eq_ssl[OF srt] lt by auto
  have wh: "np_where (map ?eq rows) (map (searchsorted_right ys) (map snd rows)) (map ?sl rows) = map ?sr rows"
  proof -
    have "np_where (map ?eq rows) (map ?sr rows) (map ?sl rows) = map (\<lambda>r. if ?eq r then ?sr r else ?sl r) rows"
      by (rule np_where_same)
    also have "\<dots> = map ?sr rows" using pt by (intro map_cong) auto
    finally show ?thesis by (simp add: o_def)
  qed
  have noany: "\<not> (\<exists>b \<in> set (map ?eq rows). b) \<Longrightarrow> map ?sl rows = map ?sr rows"
    using pt by (intro map_cong) (auto split: if_splits)
  have si: "(if (\<exists>b \<in> set (map ?eq rows). b)
             then np_where (map ?eq rows) (map (searchsorted_right ys) (map snd rows)) (map ?sl rows)
             else map ?sl rows) = map ?sr rows"
    using wh noany by presburger
  have dr: "discard_rows (map (\<lambda>s. s = int (length ys)) (map ?sr rows)) (map snd rows, map fst rows, map ?sr rows)
            = row_arrays ?sr (filter (\<lambda>r. ?sr r \<noteq> int (length ys)) rows)"
    using discard_rows_filter[of "\<lambda>r. ?sr r = int (length ys)" rows ?sr]
    by (simp add: row_arrays_def o_def)
  show ?thesis
    unfolding less_than_strict_def row_arrays_def[of ?sl] prod.case tk rbind_def sum.case Let_def req si
    using dr by simp
qed

lemma map_nth_upto:
  assumes "0 \<le> s" "s \<le> int (length xs)"
  shows "map (\<lambda>i. xs ! nat i) [s..int (length xs) - 1] = drop (nat s) xs"
proof -
  have "[s..int (length xs) - 1] = map (\<lambda>k. s + int k) [0..<nat (int (length xs) - 1 - s + 1)]"
    using assms by (intro upto_as_map) simp
  moreover have "nat (int (length xs) - 1 - s + 1) = length xs - nat s" using assms by linarith
  ultimately have "map (\<lambda>i. xs ! nat i) [s..int (length xs) - 1]
                   = map (\<lambda>k. xs ! (nat s + k)) [0..<length xs - nat s]"
    using assms by (simp add: o_def nat_add_distrib)
  also have "\<dots> = drop (nat s) xs"
    by (intro nth_equalityI) simp_all
  finally show ?thesis .
qed

lemma take_idx_ranges:
  assumes inb: "\<forall>r \<in> set rows. 0 \<le> s r \<and> s r \<le> int (length xs)"
  shows "take_idx xs (concat (map (\<lambda>r. [s r..int (length xs) - 1]) rows))
         = Inr (concat (map (\<lambda>r. drop (nat (s r)) xs) rows))"
proof -
  have "\<forall>i \<in> set (concat (map (\<lambda>r. [s r..int (length xs) - 1]) rows)). 0 \<le> i \<and> i < int (length xs)"
    using inb by auto
  then have "take_idx xs (concat (map (\<lambda>r. [s r..int (length xs) - 1]) rows))
             = Inr (map (\<lambda>i. xs ! nat i) (concat (map (\<lambda>r. [s r..int (length xs) - 1]) rows)))"
    by (rule take_idx_map)
  also have "map (\<lambda>i. xs ! nat i) (concat (map (\<lambda>r. [s r..int (length xs) - 1]) rows))
             = concat (map (\<lambda>r. map (\<lambda>i. xs ! nat i) [s r..int (length xs) - 1]) rows)"
    by (simp add: map_concat o_def)
  also have "\<dots> = concat (map (\<lambda>r. drop (nat (s r)) xs) rows)"
    using inb by (intro arg_cong[where f = concat] map_cong refl map_nth_upto) auto
  finally show ?thesis .
qed

lemma np_repeat_rows:
  assumes "\<forall>r \<in> set rows. 0 \<le> c r"
  shows "np_repeat (map f rows) (map c rows) = Inr (concat (map (\<lambda>r. replicate (nat (c r)) (f r)) rows))"
proof -
  have "map2 (\<lambda>x c. replicate (nat c) x) (map f rows) (map c rows) = map (\<lambda>r. replicate (nat (c r)) (f r)) rows"
    by (rule map2_same)
  then show ?thesis using assms unfolding np_repeat_def by (auto simp: not_less)
qed

lemma less_than_result_rows:
  assumes ne: "rows \<noteq> []" and inb: "\<forall>r \<in> set rows. 0 \<le> s r \<and> s r < int (length ridx)"
  shows "less_than_result n (map fst rows) ridx (map s rows) (int (length ridx)) =
     Inr (Some (if n > 1 then Bounds (map fst rows) ridx (map s rows) (replicate (length rows) (int (length ridx)))
          else Pairs (concat (map (\<lambda>r. replicate (length ridx - nat (s r)) (fst r)) rows))
                     (concat (map (\<lambda>r. drop (nat (s r)) ridx) rows))))"
proof (cases "n > 1")
  case True
  then show ?thesis unfolding less_than_result_def by simp
next
  case False
  let ?len = "int (length ridx)"
  let ?ps = "map (\<lambda>r. (s r, ?len)) rows"
  have ps: "map fst ?ps = map s rows" "map snd ?ps = replicate (length (map s rows)) ?len"
    by (simp_all add: o_def map_replicate_const)
  have "interval_ranges (map fst ?ps) (map snd ?ps) = Inr (concat (map (\<lambda>(i, r). [i..r - 1]) ?ps))"
    using ne inb by (intro interval_ranges_zip) auto
  then have ir: "interval_ranges (map s rows) (replicate (length (map s rows)) ?len)
                 = Inr (concat (map (\<lambda>r. [s r..?len - 1]) rows))"
    unfolding ps by (simp add: o_def)
  have sub: "np_sub (replicate (length (map s rows)) ?len) (map s rows) = Inr (map (\<lambda>r. ?len - s r) rows)"
  proof -
    have "map2 (\<lambda>x y. x - y) (map (\<lambda>r. ?len) rows) (map s rows) = map (\<lambda>r. ?len - s r) rows"
      by (rule map2_same)
    then show ?thesis unfolding np_sub_def by (simp add: map_replicate_const)
  qed
  have tk: "take_idx ridx (concat (map (\<lambda>r. [s r..?len - 1]) rows))
            = Inr (concat (map (\<lambda>r. drop (nat (s r)) ridx) rows))"
    using inb by (intro take_idx_ranges) auto
  have rp: "np_repeat (map fst rows) (map (\<lambda>r. ?len - s r) rows)
            = Inr (concat (map (\<lambda>r. replicate (nat (?len - s r)) (fst r)) rows))"
    using inb by (intro np_repeat_rows) auto
  have nat_eq: "\<And>r. r \<in> set rows \<Longrightarrow> nat (?len - s r) = length ridx - nat (s r)"
    using inb by (simp add: nat_diff_distrib')
  have "concat (map (\<lambda>r. replicate (nat (?len - s r)) (fst r)) rows)
        = concat (map (\<lambda>r. replicate (length ridx - nat (s r)) (fst r)) rows)"
    using nat_eq by (intro arg_cong[where f = concat] map_cong) auto
  then show ?thesis
    using False unfolding less_than_result_def Let_def ir sub tk rp rbind_def sum.case by simp
qed

lemma series_min_le: "series_min s = Some a \<Longrightarrow> (l, x) \<in> set (dropna s) \<Longrightarrow> a \<le> x"
proof -
  assume a: "series_min s = Some a" and x: "(l, x) \<in> set (dropna s)"
  then obtain v vs where vs: "map snd (dropna s) = v # vs" and "a = fold min vs v"
    by (auto simp: series_min_def split: list.splits)
  then have "a = Min (set (map snd (dropna s)))" using Min.set_eq_fold[of v vs] by simp
  moreover have "x \<in> set (map snd (dropna s))" using x by force
  ultimately show ?thesis by simp
qed

lemma series_max_ge: "series_max s = Some b \<Longrightarrow> (l, x) \<in> set (dropna s) \<Longrightarrow> x \<le> b"
proof -
  assume b: "series_max s = Some b" and x: "(l, x) \<in> set (dropna s)"
  then obtain v vs where vs: "map snd (dropna s) = v # vs" and "b = fold max vs v"
    by (auto simp: series_max_def split: list.splits)
  then have "b = Max (set (map snd (dropna s)))" using Max.set_eq_fold[of v vs] by simp
  moreover have "x \<in> set (map snd (dropna s))" using x by force
  ultimately show ?thesis by simp
qed

lemma ssl_all_less: "\<forall>y \<in> set ys. y < x \<Longrightarrow> searchsorted_left ys x = int (length ys)"
  by (simp add: searchsorted_left_def takeWhile_eq_all_conv[THEN iffD2])

lemma ssl_len_ssr: "searchsorted_left ys x = int (length ys) \<Longrightarrow> searchsorted_right ys x = int (length ys)"
  using ssl_le_ssr[of ys x] ssr_le[of ys x] by simp

lemma lt_point_bounds: "0 \<le> lt_point strict ys r \<and> lt_point strict ys r \<le> int (length ys)"
  by (simp add: lt_point_def ssl_nonneg ssr_nonneg ssl_le ssr_le)

lemma less_than_indices_rows:
  fixes left_c right_c :: "('a::linorder) series" and strict :: bool
  defines "R \<equiv> sort_key snd (dropna right_c)"
  defines "rows \<equiv> lt_rows strict left_c right_c"
  shows "less_than_indices left_c right_c strict n =
     Inr (if rows = [] then None
          else Some (if n > 1 then
                 Bounds (map fst rows) (map fst R) (map (lt_point strict (map snd R)) rows)
                   (replicate (length rows) (int (length R)))
               else
                 Pairs (concat (map (\<lambda>r. replicate (length R - nat (lt_point strict (map snd R) r)) (fst r)) rows))
                       (concat (map (\<lambda>r. drop (nat (lt_point strict (map snd R) r)) (map fst R)) rows))))"
proof -
  let ?L = "dropna left_c"
  let ?ys = "map snd R"
  let ?len = "int (length ?ys)"
  let ?sl = "\<lambda>r::nat \<times> 'a. searchsorted_left ?ys (snd r)"
  let ?sr = "\<lambda>r::nat \<times> 'a. searchsorted_right ?ys (snd r)"
  let ?rows1 = "filter (\<lambda>r. ?sl r \<noteq> ?len) ?L"
  have srt: "sorted ?ys" unfolding R_def by simp
  have lenR: "length R = length (dropna right_c)" unfolding R_def by simp
  have rows_def': "rows = filter (\<lambda>r. lt_point strict ?ys r \<noteq> ?len) ?L"
    unfolding rows_def lt_rows_def R_def by simp
  have rows_sub: "rows = filter (\<lambda>r. lt_point strict ?ys r \<noteq> ?len) ?rows1"
  proof -
    have "\<And>r. lt_point strict ?ys r \<noteq> ?len \<Longrightarrow> ?sl r \<noteq> ?len"
      using ssl_len_ssr[of ?ys] by (auto simp: lt_point_def split: if_splits)
    then show ?thesis unfolding rows_def' by (auto simp: filter_filter intro: filter_cong)
  qed
  show ?thesis
  proof (cases "case (series_min left_c, series_max right_c) of (Some a, Some b) \<Rightarrow> a > b | _ \<Rightarrow> False")
    case True
    then obtain a b where a: "series_min left_c = Some a" and b: "series_max right_c = Some b" and ab: "a > b"
      by (auto split: option.splits)
    have "\<And>r. r \<in> set ?L \<Longrightarrow> ?sl r = ?len"
    proof -
      fix r assume r: "r \<in> set ?L"
      have "a \<le> snd r" using series_min_le[OF a, of "fst r" "snd r"] r by simp
      moreover have "\<forall>y \<in> set ?ys. y \<le> b" using series_max_ge[OF b] unfolding R_def by auto
      ultimately have "\<forall>y \<in> set ?ys. y < snd r" using ab by fastforce
      then show "?sl r = ?len" by (rule ssl_all_less)
    qed
    then have "?rows1 = []" by (simp add: filter_empty_conv)
    then have "rows = []" using rows_sub by simp
    then show ?thesis using True unfolding less_than_indices_def by simp
  next
    case False
    have d1: "discard_rows (map (\<lambda>s. s = ?len) (map (searchsorted_left ?ys) (map snd ?L)))
                (map snd ?L, map fst ?L, map (searchsorted_left ?ys) (map snd ?L))
              = row_arrays ?sl ?rows1"
      using discard_rows_filter[of "\<lambda>r. ?sl r = ?len" ?L ?sl] by (simp add: row_arrays_def o_def)
    have strict_step: "(if strict then less_than_strict ?ys (row_arrays ?sl ?rows1) else Inr (row_arrays ?sl ?rows1))
                       = Inr (row_arrays (lt_point strict ?ys) rows)"
    proof (cases strict)
      case True
      have "less_than_strict ?ys (row_arrays ?sl ?rows1) = Inr (row_arrays ?sr (filter (\<lambda>r. ?sr r \<noteq> ?len) ?rows1))"
        using srt by (intro less_than_strict_rows) auto
      moreover have "lt_point strict ?ys = ?sr" using True by (auto simp: lt_point_def)
      ultimately show ?thesis using True rows_sub by simp
    next
      case False
      have "lt_point strict ?ys = ?sl" using False by (auto simp: lt_point_def)
      then show ?thesis using False rows_sub by simp
    qed
    have res: "rows \<noteq> [] \<Longrightarrow>
       less_than_result n (map fst rows) (map fst R) (map (lt_point strict ?ys) rows) ?len =
       Inr (Some (if n > 1 then
                 Bounds (map fst rows) (map fst R) (map (lt_point strict ?ys) rows)
                   (replicate (length rows) (int (length R)))
               else
                 Pairs (concat (map (\<lambda>r. replicate (length R - nat (lt_point strict ?ys r)) (fst r)) rows))
                       (concat (map (\<lambda>r. drop (nat (lt_point strict ?ys r)) (map fst R)) rows))))"
    proof -
      assume ne: "rows \<noteq> []"
      have "\<forall>r \<in> set rows. 0 \<le> lt_point strict ?ys r \<and> lt_point strict ?ys r < int (length (map fst R))"
        using lt_point_bounds[of strict ?ys] unfolding rows_def' by (auto simp: less_le)
      from less_than_result_rows[OF ne this, of n] show ?thesis by simp
    qed
    note unf = less_than_indices_def sorted_operands_eq R_def[symmetric] prod.case Let_def d1
      row_arrays_def
    note ss = strict_step[unfolded row_arrays_def]
    have empty1: "?rows1 = [] \<Longrightarrow> rows = []" using rows_sub by simp
    show ?thesis
    proof (cases "?rows1 = []")
      case True
      with empty1 have r: "rows = []" by simp
      show ?thesis unfolding unf
        by (simp only: True r list.map) (use False in simp)
    next
      case ne1: False
      show ?thesis
      proof (cases "rows = []")
        case True
        show ?thesis unfolding unf
          by (simp only: ne1 True ss if_False if_True list.map map_is_Nil_conv
                rbind_def sum.case prod.case) (use False in simp)
      next
        case ne2: False
        show ?thesis unfolding unf
          by (simp only: ne1 ne2 ss if_False if_True list.map map_is_Nil_conv
                rbind_def sum.case prod.case res[OF ne2]) (use False in simp)
      qed
    qed
  qed
qed

lemma takeWhile_stronger:
  assumes "\<forall>x \<in> set (takeWhile Q xs). P x" and imp: "\<forall>x. P x \<longrightarrow> Q x"
  shows "takeWhile P xs = takeWhile Q xs"
  using assms(1)
proof (induction xs)
  case Nil
  show ?case by simp
next
  case (Cons a xs)
  show ?case
  proof (cases "Q a")
    case True
    with Cons.prems have pa: "P a" and rest: "\<forall>x \<in> set (takeWhile Q xs). P x" by simp_all
    from Cons.IH[OF rest] pa True show ?thesis by simp
  next
    case False
    with imp have "\<not> P a" by blast
    with False show ?thesis by simp
  qed
qed

lemma sorted_takeWhile_le_last:
  assumes "sorted ys" "takeWhile Q ys \<noteq> []" "z \<in> set (takeWhile Q ys)"
  shows "z \<le> ys ! (length (takeWhile Q ys) - 1)"
proof -
  let ?t = "takeWhile Q ys"
  have st: "sorted ?t" using assms(1) by (rule sorted_takeWhile)
  obtain i where i: "i < length ?t" "?t ! i = z" using assms(3) by (auto simp: in_set_conv_nth)
  have "?t ! i \<le> ?t ! (length ?t - 1)" using st i by (intro sorted_nth_mono) auto
  moreover have "?t ! (length ?t - 1) = ys ! (length ?t - 1)"
    using assms(2) by (intro takeWhile_nth) simp
  ultimately show ?thesis using i by simp
qed

text \<open>Where the element before the right insertion point differs from x, both insertion points agree.\<close>

lemma ssl_eq_ssr:
  assumes s: "sorted ys" and ge: "1 \<le> searchsorted_right ys x"
    and ne: "ys ! nat (searchsorted_right ys x - 1) \<noteq> (x::'a::linorder)"
  shows "searchsorted_left ys x = searchsorted_right ys x"
proof -
  let ?Q = "\<lambda>y. y \<le> x" and ?P = "\<lambda>y. y < x"
  have tne: "takeWhile ?Q ys \<noteq> []" using ge by (auto simp: searchsorted_right_def)
  have idx: "nat (searchsorted_right ys x - 1) = length (takeWhile ?Q ys) - 1"
    using ge by (simp add: searchsorted_right_def nat_diff_distrib')
  have lastin: "ys ! (length (takeWhile ?Q ys) - 1) \<in> set (takeWhile ?Q ys)"
  proof -
    have "takeWhile ?Q ys ! (length (takeWhile ?Q ys) - 1) = ys ! (length (takeWhile ?Q ys) - 1)"
      using tne by (intro takeWhile_nth) simp
    moreover have "takeWhile ?Q ys ! (length (takeWhile ?Q ys) - 1) \<in> set (takeWhile ?Q ys)"
      using tne by (intro nth_mem) simp
    ultimately show ?thesis by simp
  qed
  then have "ys ! (length (takeWhile ?Q ys) - 1) \<le> x" by (rule set_takeWhileD[THEN conjunct2])
  with ne idx have lt: "ys ! (length (takeWhile ?Q ys) - 1) < x" by simp
  have "\<forall>z \<in> set (takeWhile ?Q ys). z < x"
  proof
    fix z assume "z \<in> set (takeWhile ?Q ys)"
    then have "z \<le> ys ! (length (takeWhile ?Q ys) - 1)" by (rule sorted_takeWhile_le_last[OF s tne])
    then show "z < x" using lt by (rule le_less_trans)
  qed
  then have "takeWhile ?P ys = takeWhile ?Q ys" by (rule takeWhile_stronger) (simp add: less_imp_le)
  then show ?thesis by (simp add: searchsorted_left_def searchsorted_right_def)
qed

text \<open>Where that element is x, the left insertion point lies before it.\<close>

lemma ssl_lt_len:
  assumes ge: "1 \<le> searchsorted_right ys x"
    and eq: "ys ! nat (searchsorted_right ys x - 1) = (x::'a::linorder)"
  shows "searchsorted_left ys x \<noteq> int (length ys)"
proof
  assume "searchsorted_left ys x = int (length ys)"
  then have "length (takeWhile (\<lambda>y. y < x) ys) = length ys" by (simp add: searchsorted_left_def)
  moreover have "length (takeWhile (\<lambda>y. y < x) ys) + length (dropWhile (\<lambda>y. y < x) ys) = length ys"
    by (metis length_append takeWhile_dropWhile_id)
  ultimately have "dropWhile (\<lambda>y. y < x) ys = []" by simp
  then have all: "\<forall>y \<in> set ys. y < x" by (simp only: dropWhile_eq_Nil_conv)
  have "nat (searchsorted_right ys x - 1) < length ys"
    using ge ssr_le[of ys x] by linarith
  then have "ys ! nat (searchsorted_right ys x - 1) \<in> set ys" by simp
  with all eq show False by auto
qed

lemma greater_than_strict_rows:
  fixes ys :: "('a::linorder) list"
  assumes srt: "sorted ys"
    and inb: "\<forall>r \<in> set rows. \<not> searchsorted_right ys (snd r) < 1"
  shows "greater_than_strict ys (row_arrays (\<lambda>r. searchsorted_right ys (snd r)) rows)
         = Inr (row_arrays (\<lambda>r. searchsorted_left ys (snd r))
                  (filter (\<lambda>r. \<not> searchsorted_left ys (snd r) < 1) rows))"
proof -
  let ?sl = "\<lambda>r::nat \<times> 'a. searchsorted_left ys (snd r)"
  let ?sr = "\<lambda>r::nat \<times> 'a. searchsorted_right ys (snd r)"
  let ?eq = "\<lambda>r::nat \<times> 'a. snd r = ys ! nat (?sr r - 1)"
  let ?adj = "\<lambda>r::nat \<times> 'a. if ?sl r = int (length ys) then ?sl r - 1 else ?sl r"
  have ge: "\<forall>r \<in> set rows. 1 \<le> ?sr r" using inb by auto
  have tk: "take_idx ys (map (\<lambda>s. s - 1) (map ?sr rows)) = Inr (map (\<lambda>r. ys ! nat (?sr r - 1)) rows)"
  proof -
    have "\<And>r. r \<in> set rows \<Longrightarrow> 0 \<le> ?sr r - 1 \<and> ?sr r - 1 < int (length ys)"
    proof -
      fix r assume "r \<in> set rows"
      then have "1 \<le> ?sr r" using ge by blast
      moreover have "?sr r \<le> int (length ys)" by (rule ssr_le)
      ultimately show "0 \<le> ?sr r - 1 \<and> ?sr r - 1 < int (length ys)" by linarith
    qed
    then have "\<forall>i \<in> set (map (\<lambda>r. ?sr r - 1) rows). 0 \<le> i \<and> i < int (length ys)"
      by auto
    from take_idx_map[OF this]
    have "take_idx ys (map (\<lambda>r. ?sr r - 1) rows) = Inr (map (\<lambda>i. ys ! nat i) (map (\<lambda>r. ?sr r - 1) rows))" .
    moreover have "map (\<lambda>s. s - 1) (map ?sr rows) = map (\<lambda>r. ?sr r - 1) rows" by (simp add: o_def)
    moreover have "map (\<lambda>i. ys ! nat i) (map (\<lambda>r. ?sr r - 1) rows) = map (\<lambda>r. ys ! nat (?sr r - 1)) rows"
      by (simp add: o_def)
    ultimately show ?thesis by (simp only:)
  qed
  have req: "map2 (\<lambda>a b. a = b) (map snd rows) (map (\<lambda>r. ys ! nat (?sr r - 1)) rows) = map ?eq rows"
    by (rule map2_same)
  have adj: "np_where (map (\<lambda>r. r = int (length ys)) (map (searchsorted_left ys) (map snd rows)))
               (map (\<lambda>r. r - 1) (map (searchsorted_left ys) (map snd rows)))
               (map (searchsorted_left ys) (map snd rows)) = map ?adj rows"
  proof -
    have m: "map (searchsorted_left ys) (map snd rows) = map ?sl rows" by (simp add: o_def)
    have m1: "map (\<lambda>r. r = int (length ys)) (map ?sl rows) = map (\<lambda>r. ?sl r = int (length ys)) rows"
      by (simp add: o_def)
    have m2: "map (\<lambda>r. r - 1) (map ?sl rows) = map (\<lambda>r. ?sl r - 1) rows" by (simp add: o_def)
    show ?thesis unfolding m m1 m2 by (rule np_where_same)
  qed
  have pt: "\<And>r. r \<in> set rows \<Longrightarrow> (if ?eq r then ?adj r else ?sr r) = ?sl r"
  proof -
    fix r assume r: "r \<in> set rows"
    then have g: "1 \<le> ?sr r" using ge by blast
    show "(if ?eq r then ?adj r else ?sr r) = ?sl r"
    proof (cases "?eq r")
      case True
      then have "?sl r \<noteq> int (length ys)" using ssl_lt_len[OF g] by simp
      then show ?thesis using True by simp
    next
      case False
      then have "?sl r = ?sr r" using ssl_eq_ssr[OF srt g] by simp
      then show ?thesis using False by simp
    qed
  qed
  have wh: "np_where (map ?eq rows) (map ?adj rows) (map ?sr rows) = map ?sl rows"
  proof -
    have "np_where (map ?eq rows) (map ?adj rows) (map ?sr rows) = map (\<lambda>r. if ?eq r then ?adj r else ?sr r) rows"
      by (rule np_where_same)
    also have "\<dots> = map ?sl rows" using pt by (intro map_cong) auto
    finally show ?thesis .
  qed
  have noany: "\<not> (\<exists>b \<in> set (map ?eq rows). b) \<Longrightarrow> map ?sr rows = map ?sl rows"
  proof -
    assume n: "\<not> (\<exists>b \<in> set (map ?eq rows). b)"
    have "\<And>r. r \<in> set rows \<Longrightarrow> ?sr r = ?sl r"
    proof -
      fix r assume r: "r \<in> set rows"
      with n have "\<not> ?eq r" by auto
      with pt[OF r] show "?sr r = ?sl r" by simp
    qed
    then show ?thesis by (intro map_cong) auto
  qed
  have si: "(if (\<exists>b \<in> set (map ?eq rows). b)
             then np_where (map ?eq rows) (map ?adj rows) (map ?sr rows)
             else map ?sr rows) = map ?sl rows"
    using wh noany by presburger
  have dr: "discard_rows (map (\<lambda>s. s < 1) (map ?sl rows)) (map snd rows, map fst rows, map ?sl rows)
            = row_arrays ?sl (filter (\<lambda>r. \<not> ?sl r < 1) rows)"
    using discard_rows_filter[of "\<lambda>r. ?sl r < 1" rows ?sl]
    by (simp add: row_arrays_def o_def)
  show ?thesis
    unfolding greater_than_strict_def row_arrays_def[of ?sr] prod.case tk rbind_def sum.case Let_def req adj si
    by (simp only: dr)
qed

lemma map_nth_upto0:
  assumes "0 \<le> s" "s \<le> int (length xs)"
  shows "map (\<lambda>i. xs ! nat i) [0..s - 1] = take (nat s) xs"
proof -
  have "[0..s - 1] = map (\<lambda>k. 0 + int k) [0..<nat (s - 1 - 0 + 1)]"
    using assms by (intro upto_as_map) simp
  then have "map (\<lambda>i. xs ! nat i) [0..s - 1] = map (\<lambda>k. xs ! k) [0..<nat s]"
    by (simp add: o_def)
  also have "\<dots> = take (nat s) xs"
    using assms by (intro nth_equalityI) simp_all
  finally show ?thesis .
qed

lemma take_idx_ranges0:
  assumes inb: "\<forall>r \<in> set rows. 0 \<le> s r \<and> s r \<le> int (length xs)"
  shows "take_idx xs (concat (map (\<lambda>r. [0..s r - 1]) rows))
         = Inr (concat (map (\<lambda>r. take (nat (s r)) xs) rows))"
proof -
  have "\<forall>i \<in> set (concat (map (\<lambda>r. [0..s r - 1]) rows)). 0 \<le> i \<and> i < int (length xs)"
    using inb by auto
  then have "take_idx xs (concat (map (\<lambda>r. [0..s r - 1]) rows))
             = Inr (map (\<lambda>i. xs ! nat i) (concat (map (\<lambda>r. [0..s r - 1]) rows)))"
    by (rule take_idx_map)
  also have "map (\<lambda>i. xs ! nat i) (concat (map (\<lambda>r. [0..s r - 1]) rows))
             = concat (map (\<lambda>r. map (\<lambda>i. xs ! nat i) [0..s r - 1]) rows)"
    by (simp add: map_concat o_def)
  also have "\<dots> = concat (map (\<lambda>r. take (nat (s r)) xs) rows)"
    using inb by (intro arg_cong[where f = concat] map_cong refl map_nth_upto0) auto
  finally show ?thesis .
qed

lemma greater_than_result_rows:
  assumes ne: "rows \<noteq> []" and inb: "\<forall>r \<in> set rows. 1 \<le> s r \<and> s r \<le> int (length ridx)"
  shows "greater_than_result n (map fst rows) ridx (map s rows) =
     Inr (Some (if n > 1 then Bounds (map fst rows) ridx (map s rows) (replicate (length rows) 0)
          else Pairs (concat (map (\<lambda>r. replicate (nat (s r)) (fst r)) rows))
                     (concat (map (\<lambda>r. take (nat (s r)) ridx) rows))))"
proof (cases "n > 1")
  case True
  then show ?thesis unfolding greater_than_result_def by simp
next
  case False
  let ?ps = "map (\<lambda>r. (0::int, s r)) rows"
  have ps: "map fst ?ps = replicate (length (map s rows)) 0" "map snd ?ps = map s rows"
    by (simp_all add: o_def map_replicate_const)
  have "interval_ranges (map fst ?ps) (map snd ?ps) = Inr (concat (map (\<lambda>(i, r). [i..r - 1]) ?ps))"
    using ne inb by (intro interval_ranges_zip) auto
  then have ir: "interval_ranges (replicate (length (map s rows)) 0) (map s rows)
                 = Inr (concat (map (\<lambda>r. [0..s r - 1]) rows))"
    unfolding ps by (simp add: o_def)
  have tk: "take_idx ridx (concat (map (\<lambda>r. [0..s r - 1]) rows))
            = Inr (concat (map (\<lambda>r. take (nat (s r)) ridx) rows))"
    using inb by (intro take_idx_ranges0) auto
  have rp: "np_repeat (map fst rows) (map s rows)
            = Inr (concat (map (\<lambda>r. replicate (nat (s r)) (fst r)) rows))"
    using inb by (intro np_repeat_rows) auto
  show ?thesis
    using False unfolding greater_than_result_def Let_def ir tk rp rbind_def sum.case by simp
qed

lemma ssr_all_greater: "\<forall>y \<in> set ys. x < y \<Longrightarrow> searchsorted_right ys x = 0"
  by (cases ys) (simp_all add: searchsorted_right_def not_le)

lemma gt_point_bounds: "0 \<le> gt_point strict ys r \<and> gt_point strict ys r \<le> int (length ys)"
  by (simp add: gt_point_def ssl_nonneg ssr_nonneg ssl_le ssr_le)

lemma greater_than_indices_rows:
  fixes left_c right_c :: "('a::linorder) series" and strict :: bool
  defines "R \<equiv> sort_key snd (dropna right_c)"
  defines "rows \<equiv> gt_rows strict left_c right_c"
  shows "greater_than_indices left_c right_c strict n =
     Inr (if rows = [] then None
          else Some (if n > 1 then
                 Bounds (map fst rows) (map fst R) (map (gt_point strict (map snd R)) rows)
                   (replicate (length rows) 0)
               else
                 Pairs (concat (map (\<lambda>r. replicate (nat (gt_point strict (map snd R) r)) (fst r)) rows))
                       (concat (map (\<lambda>r. take (nat (gt_point strict (map snd R) r)) (map fst R)) rows))))"
proof -
  let ?L = "dropna left_c"
  let ?ys = "map snd R"
  let ?sl = "\<lambda>r::nat \<times> 'a. searchsorted_left ?ys (snd r)"
  let ?sr = "\<lambda>r::nat \<times> 'a. searchsorted_right ?ys (snd r)"
  let ?rows1 = "filter (\<lambda>r. \<not> ?sr r < 1) ?L"
  have srt: "sorted ?ys" unfolding R_def by simp
  have rows_def': "rows = filter (\<lambda>r. \<not> gt_point strict ?ys r < 1) ?L"
    unfolding rows_def gt_rows_def R_def by simp
  have rows_sub: "rows = filter (\<lambda>r. \<not> gt_point strict ?ys r < 1) ?rows1"
  proof -
    have "\<And>r. \<not> gt_point strict ?ys r < 1 \<Longrightarrow> \<not> ?sr r < 1"
    proof -
      fix r :: "nat \<times> 'a" assume "\<not> gt_point strict ?ys r < 1"
      moreover have "?sl r \<le> ?sr r" by (rule ssl_le_ssr)
      ultimately show "\<not> ?sr r < 1" by (cases strict) (simp_all add: gt_point_def)
    qed
    then show ?thesis unfolding rows_def' by (auto simp: filter_filter intro: filter_cong)
  qed
  show ?thesis
  proof (cases "case (series_max left_c, series_min right_c) of (Some a, Some b) \<Rightarrow> a < b | _ \<Rightarrow> False")
    case True
    then obtain a b where a: "series_max left_c = Some a" and b: "series_min right_c = Some b" and ab: "a < b"
      by (auto split: option.splits)
    have "\<And>r. r \<in> set ?L \<Longrightarrow> ?sr r = 0"
    proof -
      fix r assume r: "r \<in> set ?L"
      have "snd r \<le> a" using series_max_ge[OF a, of "fst r" "snd r"] r by simp
      moreover have "\<forall>y \<in> set ?ys. b \<le> y" using series_min_le[OF b] unfolding R_def by auto
      ultimately have "\<forall>y \<in> set ?ys. snd r < y" using ab by fastforce
      then show "?sr r = 0" by (rule ssr_all_greater)
    qed
    then have "?rows1 = []" by (simp add: filter_empty_conv)
    then have "rows = []" using rows_sub by simp
    then show ?thesis using True unfolding greater_than_indices_def by simp
  next
    case False
    have d1: "discard_rows (map (\<lambda>s. s < 1) (map (searchsorted_right ?ys) (map snd ?L)))
                (map snd ?L, map fst ?L, map (searchsorted_right ?ys) (map snd ?L))
              = row_arrays ?sr ?rows1"
      using discard_rows_filter[of "\<lambda>r. ?sr r < 1" ?L ?sr] by (simp add: row_arrays_def o_def)
    have strict_step: "(if strict then greater_than_strict ?ys (row_arrays ?sr ?rows1) else Inr (row_arrays ?sr ?rows1))
                       = Inr (row_arrays (gt_point strict ?ys) rows)"
    proof (cases strict)
      case True
      have "greater_than_strict ?ys (row_arrays ?sr ?rows1) = Inr (row_arrays ?sl (filter (\<lambda>r. \<not> ?sl r < 1) ?rows1))"
        using srt by (intro greater_than_strict_rows) auto
      moreover have "gt_point strict ?ys = ?sl" using True by (auto simp: gt_point_def)
      ultimately show ?thesis using True rows_sub by simp
    next
      case False
      have "gt_point strict ?ys = ?sr" using False by (auto simp: gt_point_def)
      then show ?thesis using False rows_sub by simp
    qed
    have res: "rows \<noteq> [] \<Longrightarrow>
       greater_than_result n (map fst rows) (map fst R) (map (gt_point strict ?ys) rows) =
       Inr (Some (if n > 1 then
                 Bounds (map fst rows) (map fst R) (map (gt_point strict ?ys) rows)
                   (replicate (length rows) 0)
               else
                 Pairs (concat (map (\<lambda>r. replicate (nat (gt_point strict ?ys r)) (fst r)) rows))
                       (concat (map (\<lambda>r. take (nat (gt_point strict ?ys r)) (map fst R)) rows))))"
    proof -
      assume ne: "rows \<noteq> []"
      have "\<forall>r \<in> set rows. 1 \<le> gt_point strict ?ys r \<and> gt_point strict ?ys r \<le> int (length (map fst R))"
        using gt_point_bounds[of strict ?ys] unfolding rows_def' by (auto simp: not_less)
      from greater_than_result_rows[OF ne this, of n] show ?thesis by simp
    qed
    note unf = greater_than_indices_def sorted_operands_eq R_def[symmetric] prod.case Let_def d1
      row_arrays_def
    note ss = strict_step[unfolded row_arrays_def]
    have empty1: "?rows1 = [] \<Longrightarrow> rows = []" using rows_sub by simp
    show ?thesis
    proof (cases "?rows1 = []")
      case True
      with empty1 have r: "rows = []" by simp
      show ?thesis unfolding unf
        by (simp only: True r list.map) (use False in simp)
    next
      case ne1: False
      show ?thesis
      proof (cases "rows = []")
        case True
        show ?thesis unfolding unf
          by (simp only: ne1 True ss if_False if_True list.map map_is_Nil_conv
                rbind_def sum.case prod.case) (use False in simp)
      next
        case ne2: False
        show ?thesis unfolding unf
          by (simp only: ne1 ne2 ss if_False if_True list.map map_is_Nil_conv
                rbind_def sum.case prod.case res[OF ne2]) (use False in simp)
      qed
    qed
  qed
qed

section \<open>Range matchers: the pairs returned\<close>

lemma sorted_takeWhile_filter:
  assumes dc: "\<And>a b. a \<le> b \<Longrightarrow> Q b \<Longrightarrow> Q (a::'a::linorder)"
  shows "sorted (map snd R) \<Longrightarrow> takeWhile (\<lambda>q. Q (snd q)) R = filter (\<lambda>q. Q (snd q)) (R::(nat \<times> 'a) list)"
proof (induction R)
  case Nil show ?case by simp
next
  case (Cons q R)
  show ?case
  proof (cases "Q (snd q)")
    case True
    then show ?thesis using Cons by simp
  next
    case False
    have "\<forall>p \<in> set R. \<not> Q (snd p)"
    proof
      fix p assume "p \<in> set R"
      then have "snd q \<le> snd p" using Cons.prems by auto
      then show "\<not> Q (snd p)" using False dc by blast
    qed
    then have "filter (\<lambda>q. Q (snd q)) R = []" by (simp add: filter_empty_conv)
    then show ?thesis using False by simp
  qed
qed

lemma sorted_dropWhile_filter:
  assumes dc: "\<And>a b. a \<le> b \<Longrightarrow> Q b \<Longrightarrow> Q (a::'a::linorder)"
  shows "sorted (map snd R) \<Longrightarrow> dropWhile (\<lambda>q. Q (snd q)) R = filter (\<lambda>q. \<not> Q (snd q)) (R::(nat \<times> 'a) list)"
proof (induction R)
  case Nil show ?case by simp
next
  case (Cons q R)
  show ?case
  proof (cases "Q (snd q)")
    case True
    then show ?thesis using Cons by simp
  next
    case False
    have "\<forall>p \<in> set R. \<not> Q (snd p)"
    proof
      fix p assume "p \<in> set R"
      then have "snd q \<le> snd p" using Cons.prems by auto
      then show "\<not> Q (snd p)" using False dc by blast
    qed
    then have "filter (\<lambda>q. \<not> Q (snd q)) R = R" by (simp add: filter_id_conv)
    then show ?thesis using False by simp
  qed
qed

lemma drop_takeWhile_snd:
  "drop (length (takeWhile Q (map snd R))) R = dropWhile (\<lambda>q. Q (snd q)) R"
proof -
  have "length (takeWhile Q (map snd R)) = length (takeWhile (\<lambda>q. Q (snd q)) R)"
    by (simp add: takeWhile_map o_def)
  then show ?thesis by (simp add: dropWhile_eq_drop)
qed

lemma take_takeWhile_snd:
  "take (length (takeWhile Q (map snd R))) R = takeWhile (\<lambda>q. Q (snd q)) R"
proof -
  have "length (takeWhile Q (map snd R)) = length (takeWhile (\<lambda>q. Q (snd q)) R)"
    by (simp add: takeWhile_map o_def)
  then show ?thesis using takeWhile_eq_take[of "\<lambda>q. Q (snd q)" R] by simp
qed

lemma drop_lt_point:
  fixes R :: "(nat \<times> 'a::linorder) list"
  assumes "sorted (map snd R)"
  shows "drop (nat (lt_point strict (map snd R) r)) R
         = filter (\<lambda>q. if strict then snd r < snd q else snd r \<le> snd q) R"
proof (cases strict)
  case True
  have "dropWhile (\<lambda>q. snd q \<le> snd r) R = filter (\<lambda>q. \<not> snd q \<le> snd r) R"
    using assms by (intro sorted_dropWhile_filter[where Q = "\<lambda>y. y \<le> snd r"]) auto
  then show ?thesis using True
    by (simp add: lt_point_def searchsorted_right_def drop_takeWhile_snd not_le)
next
  case False
  have "dropWhile (\<lambda>q. snd q < snd r) R = filter (\<lambda>q. \<not> snd q < snd r) R"
    using assms by (intro sorted_dropWhile_filter[where Q = "\<lambda>y. y < snd r"]) auto
  then show ?thesis using False
    by (simp add: lt_point_def searchsorted_left_def drop_takeWhile_snd not_less)
qed

lemma take_gt_point:
  fixes R :: "(nat \<times> 'a::linorder) list"
  assumes "sorted (map snd R)"
  shows "take (nat (gt_point strict (map snd R) r)) R
         = filter (\<lambda>q. if strict then snd r > snd q else snd r \<ge> snd q) R"
proof (cases strict)
  case True
  have "takeWhile (\<lambda>q. snd q < snd r) R = filter (\<lambda>q. snd q < snd r) R"
    using assms by (intro sorted_takeWhile_filter[where Q = "\<lambda>y. y < snd r"]) auto
  then show ?thesis using True
    by (simp add: gt_point_def searchsorted_left_def take_takeWhile_snd)
next
  case False
  have "takeWhile (\<lambda>q. snd q \<le> snd r) R = filter (\<lambda>q. snd q \<le> snd r) R"
    using assms by (intro sorted_takeWhile_filter[where Q = "\<lambda>y. y \<le> snd r"]) auto
  then show ?thesis using False
    by (simp add: gt_point_def searchsorted_right_def take_takeWhile_snd)
qed

lemma concat_map_filter_nonempty:
  "concat (map f (filter (\<lambda>x. f x \<noteq> []) xs)) = concat (map f xs)"
  by (induction xs) auto

lemma mset_cross_select_perm:
  "mset R = mset R' \<Longrightarrow> mset (cross_select P L R) = mset (cross_select P L R')"
proof (induction L)
  case Nil show ?case by (simp add: cross_select_def)
next
  case (Cons l L)
  have "mset (map (\<lambda>r. (fst l, fst r)) (filter (\<lambda>r. P (snd l) (snd r)) R))
        = mset (map (\<lambda>r. (fst l, fst r)) (filter (\<lambda>r. P (snd l) (snd r)) R'))"
    using Cons.prems by (simp add: mset_filter[symmetric] del: mset_filter)
       (metis mset_filter mset_map)
  then show ?case using Cons by (simp add: cross_select_def)
qed

lemma map_fst_pairing: "map fst (map (\<lambda>q. (a, g q)) xs) = replicate (length xs) a"
  by (induction xs) auto

lemma less_than_indices_pairs:
  fixes left_c right_c :: "('a::linorder) series" and strict :: bool
  shows "less_than_indices left_c right_c strict 1 =
         Inr (pairs_result (cross_select (\<lambda>x y. if strict then x < y else x \<le> y)
                (dropna left_c) (sort_key snd (dropna right_c))))"
proof -
  define R where "R = sort_key snd (dropna right_c)"
  define rows where "rows = lt_rows strict left_c right_c"
  define pt where "pt = lt_point strict (map snd R)"
  define f where "f = (\<lambda>r::nat \<times> 'a. map (\<lambda>q. (fst r, fst q)) (filter (\<lambda>q::nat \<times> 'a. if strict then snd r < snd q else snd r \<le> snd q) R))"
  have srt: "sorted (map snd R)" unfolding R_def by simp
  have fdrop: "\<And>r. f r = map (\<lambda>q. (fst r, fst q)) (drop (nat (pt r)) R)"
    unfolding f_def pt_def using drop_lt_point[OF srt] by simp
  have bounds: "\<And>r. 0 \<le> pt r \<and> pt r \<le> int (length R)"
    unfolding pt_def using lt_point_bounds[of strict "map snd R"] by simp
  have ne_iff: "\<And>r. (f r \<noteq> []) = (pt r \<noteq> int (length R))"
  proof -
    fix r
    have "(f r \<noteq> []) = (nat (pt r) < length R)" unfolding fdrop by (simp add: not_le)
    also have "\<dots> = (pt r \<noteq> int (length R))" using bounds[of r] by linarith
    finally show "(f r \<noteq> []) = (pt r \<noteq> int (length R))" .
  qed
  have rows_eq: "rows = filter (\<lambda>r. f r \<noteq> []) (dropna left_c)"
    unfolding rows_def lt_rows_def ne_iff pt_def R_def by simp
  have cs: "cross_select (\<lambda>x y. if strict then x < y else x \<le> y) (dropna left_c) R = concat (map f rows)"
    unfolding rows_eq concat_map_filter_nonempty by (simp add: cross_select_def f_def)
  have empty_iff: "(concat (map f rows) = []) = (rows = [])"
    unfolding rows_eq by (auto simp: filter_empty_conv)
  have A: "concat (map (\<lambda>r. replicate (length R - nat (pt r)) (fst r)) rows) = map fst (concat (map f rows))"
    by (simp add: map_concat o_def fdrop map_replicate_const)
  have B: "concat (map (\<lambda>r. drop (nat (pt r)) (map fst R)) rows) = map snd (concat (map f rows))"
    by (simp add: map_concat o_def fdrop drop_map)
  show ?thesis
    unfolding less_than_indices_rows R_def[symmetric] rows_def[symmetric] pt_def[symmetric] cs
      pairs_result_def empty_iff
    using A B by simp
qed

lemma greater_than_indices_pairs:
  fixes left_c right_c :: "('a::linorder) series" and strict :: bool
  shows "greater_than_indices left_c right_c strict 1 =
         Inr (pairs_result (cross_select (\<lambda>x y. if strict then x > y else x \<ge> y)
                (dropna left_c) (sort_key snd (dropna right_c))))"
proof -
  define R where "R = sort_key snd (dropna right_c)"
  define rows where "rows = gt_rows strict left_c right_c"
  define pt where "pt = gt_point strict (map snd R)"
  define f where "f = (\<lambda>r::nat \<times> 'a. map (\<lambda>q. (fst r, fst q)) (filter (\<lambda>q::nat \<times> 'a. if strict then snd r > snd q else snd r \<ge> snd q) R))"
  have srt: "sorted (map snd R)" unfolding R_def by simp
  have ftake: "\<And>r. f r = map (\<lambda>q. (fst r, fst q)) (take (nat (pt r)) R)"
    unfolding f_def pt_def using take_gt_point[OF srt] by simp
  have bounds: "\<And>r. 0 \<le> pt r \<and> pt r \<le> int (length R)"
    unfolding pt_def using gt_point_bounds[of strict "map snd R"] by simp
  have ne_iff: "\<And>r. (f r \<noteq> []) = (\<not> pt r < 1)"
  proof -
    fix r
    have "(f r \<noteq> []) = (0 < nat (pt r) \<and> R \<noteq> [])" unfolding ftake by auto
    also have "\<dots> = (\<not> pt r < 1)" using bounds[of r] by (cases R) auto
    finally show "(f r \<noteq> []) = (\<not> pt r < 1)" .
  qed
  have rows_eq: "rows = filter (\<lambda>r. f r \<noteq> []) (dropna left_c)"
    unfolding rows_def gt_rows_def ne_iff pt_def R_def by simp
  have cs: "cross_select (\<lambda>x y. if strict then x > y else x \<ge> y) (dropna left_c) R = concat (map f rows)"
    unfolding rows_eq concat_map_filter_nonempty by (simp add: cross_select_def f_def)
  have empty_iff: "(concat (map f rows) = []) = (rows = [])"
    unfolding rows_eq by (auto simp: filter_empty_conv)
  have len: "\<And>r. min (length R) (nat (pt r)) = nat (pt r)"
  proof -
    fix r
    have "nat (pt r) \<le> length R" using bounds[of r] by linarith
    then show "min (length R) (nat (pt r)) = nat (pt r)" by simp
  qed
  have A: "concat (map (\<lambda>r. replicate (nat (pt r)) (fst r)) rows) = map fst (concat (map f rows))"
    by (simp add: map_concat o_def ftake map_replicate_const len)
  have B: "concat (map (\<lambda>r. take (nat (pt r)) (map fst R)) rows) = map snd (concat (map f rows))"
    by (simp add: map_concat o_def ftake take_map)
  show ?thesis
    unfolding greater_than_indices_rows R_def[symmetric] rows_def[symmetric] pt_def[symmetric] cs
      pairs_result_def empty_iff
    using A B by simp
qed

lemma cross_select_dropna:
  assumes n1: "\<And>y. \<not> P' None y" and n2: "\<And>x. \<not> P' x None"
    and s: "\<And>x y. P' (Some x) (Some y) = P x y"
  shows "cross_select P (dropna left_c) (dropna right_c) = cross_select P' left_c right_c"
proof -
  have inner: "\<And>x l. map (\<lambda>r. (l, fst r)) (filter (\<lambda>r. P x (snd r)) (dropna right_c))
                 = map (\<lambda>r. (l, fst r)) (filter (\<lambda>r. P' (Some x) (snd r)) right_c)"
  proof -
    fix x l show "map (\<lambda>r. (l, fst r)) (filter (\<lambda>r. P x (snd r)) (dropna right_c))
                 = map (\<lambda>r. (l, fst r)) (filter (\<lambda>r. P' (Some x) (snd r)) right_c)"
      by (induction right_c rule: dropna.induct) (simp_all add: n2 s)
  qed
  have none: "\<And>l. filter (\<lambda>r. P' None (snd r)) right_c = []"
    by (simp add: n1 filter_empty_conv)
  show ?thesis
    by (induction left_c rule: dropna.induct) (simp_all add: cross_select_def inner none)
qed

section \<open>Interval expansion: the calls of the matchers\<close>

lemma interval_ranges_pre:
  assumes "interval_pre indices right"
  shows "interval_ranges indices right = Inr (concat (map2 (\<lambda>i r. [i..r - 1]) indices right))"
proof -
  from assms have ne: "indices \<noteq> []" and l2: "list_all2 (\<lambda>i r. i < r) indices right"
    by (simp_all add: interval_pre_def)
  from l2 have len: "length indices = length right" by (rule list_all2_lengthD)
  let ?ps = "zip indices right"
  have ps: "map fst ?ps = indices" "map snd ?ps = right" using len by simp_all
  have "?ps \<noteq> []" using ne len by (cases indices; cases right) simp_all
  moreover have "\<forall>(i, r) \<in> set ?ps. i < r" using l2 by (auto simp: list_all2_iff)
  ultimately have "interval_ranges (map fst ?ps) (map snd ?ps) = Inr (concat (map (\<lambda>(i, r). [i..r - 1]) ?ps))"
    by (rule interval_ranges_zip)
  then show ?thesis unfolding ps .
qed

lemma less_than_bounds_pre:
  fixes left_c right_c :: "('a::linorder) series"
  assumes "less_than_indices left_c right_c strict 2 = Inr (Some (Bounds li ri si ind))"
  shows "interval_pre si ind \<and> ind = replicate (length si) (int (length ri))
         \<and> less_than_indices left_c right_c strict 1 = less_than_result 1 li ri si (int (length ri))"
proof -
  define R where "R = sort_key snd (dropna right_c)"
  define rows where "rows = lt_rows strict left_c right_c"
  define pt where "pt = lt_point strict (map snd R)"
  have two: "(1::nat) < 2" by simp
  from assms have ne: "rows \<noteq> []"
    unfolding less_than_indices_rows rows_def by (auto split: if_splits)
  from assms ne have li: "li = map fst rows" and ri: "ri = map fst R" and si: "si = map pt rows"
    and ind: "ind = replicate (length rows) (int (length R))"
    unfolding less_than_indices_rows rows_def[symmetric] R_def[symmetric] pt_def[symmetric] by simp_all
  have inb: "\<forall>r \<in> set rows. 0 \<le> pt r \<and> pt r < int (length ri)"
  proof
    fix r assume "r \<in> set rows"
    then have "pt r \<noteq> int (length R)" unfolding rows_def lt_rows_def pt_def R_def by simp
    moreover have "0 \<le> pt r \<and> pt r \<le> int (length R)"
      unfolding pt_def using lt_point_bounds[of strict "map snd R" r] by simp
    ultimately show "0 \<le> pt r \<and> pt r < int (length ri)" unfolding ri by simp
  qed
  have "list_all2 (\<lambda>i r. i < r) (map pt rows) (replicate (length rows) (int (length R)))"
    using inb unfolding ri by (simp add: list_all2_conv_all_nth)
  then have pre: "interval_pre si ind" unfolding interval_pre_def si ind using ne by simp
  have one: "less_than_indices left_c right_c strict 1 = less_than_result 1 li ri si (int (length ri))"
    unfolding li si less_than_result_rows[OF ne inb] 
    unfolding ri less_than_indices_rows rows_def[symmetric] R_def[symmetric] pt_def[symmetric]
    using ne by simp
  show ?thesis using pre one unfolding ind si ri by simp
qed

lemma greater_than_bounds_pre:
  fixes left_c right_c :: "('a::linorder) series"
  assumes "greater_than_indices left_c right_c strict 2 = Inr (Some (Bounds li ri si ind))"
  shows "interval_pre ind si \<and> ind = replicate (length si) 0
         \<and> greater_than_indices left_c right_c strict 1 = greater_than_result 1 li ri si"
proof -
  define R where "R = sort_key snd (dropna right_c)"
  define rows where "rows = gt_rows strict left_c right_c"
  define pt where "pt = gt_point strict (map snd R)"
  from assms have ne: "rows \<noteq> []"
    unfolding greater_than_indices_rows rows_def by (auto split: if_splits)
  from assms ne have li: "li = map fst rows" and ri: "ri = map fst R" and si: "si = map pt rows"
    and ind: "ind = replicate (length rows) 0"
    unfolding greater_than_indices_rows rows_def[symmetric] R_def[symmetric] pt_def[symmetric] by simp_all
  have inb: "\<forall>r \<in> set rows. 1 \<le> pt r \<and> pt r \<le> int (length ri)"
  proof
    fix r assume "r \<in> set rows"
    then have "\<not> pt r < 1" unfolding rows_def gt_rows_def pt_def R_def by simp
    moreover have "0 \<le> pt r \<and> pt r \<le> int (length R)"
      unfolding pt_def using gt_point_bounds[of strict "map snd R" r] by simp
    ultimately show "1 \<le> pt r \<and> pt r \<le> int (length ri)" unfolding ri by simp
  qed
  have "list_all2 (\<lambda>i r. i < r) (replicate (length rows) 0) (map pt rows)"
    using inb by (simp add: list_all2_conv_all_nth) (metis nth_mem less_le_trans zero_less_one)
  then have pre: "interval_pre ind si" unfolding interval_pre_def si ind using ne by simp
  have one: "greater_than_indices left_c right_c strict 1 = greater_than_result 1 li ri si"
    unfolding li si greater_than_result_rows[OF ne inb]
    unfolding ri greater_than_indices_rows rows_def[symmetric] R_def[symmetric] pt_def[symmetric]
    using ne by simp
  show ?thesis using pre one unfolding ind si ri by simp
qed

section \<open>Range matchers: exactness against the reference\<close>

lemma mset_cross_select_sorted:
  fixes left_c right_c :: "('a::linorder) series"
  assumes n1: "\<And>y. \<not> P' None y" and n2: "\<And>x. \<not> P' x None"
    and s: "\<And>x y. P' (Some x) (Some y) = P x y"
  shows "mset (cross_select P (dropna left_c) (sort_key snd (dropna right_c)))
         = mset (cross_select P' left_c right_c)"
proof -
  have "mset (cross_select P (dropna left_c) (sort_key snd (dropna right_c)))
        = mset (cross_select P (dropna left_c) (dropna right_c))"
    by (rule mset_cross_select_perm) simp
  also have "cross_select P (dropna left_c) (dropna right_c) = cross_select P' left_c right_c"
    using n1 n2 s by (rule cross_select_dropna)
  finally show ?thesis .
qed

lemma less_than_indices_exact:
  fixes left_c right_c :: "('a::linorder) series"
  shows "\<exists>ps. less_than_indices left_c right_c strict 1 = Inr (pairs_result ps)
            \<and> ps = cross_select (\<lambda>x y. if strict then x < y else x \<le> y)
                      (dropna left_c) (sort_key snd (dropna right_c))
            \<and> mset ps = mset (cross_select
                      (operator_map (if strict then LESS_THAN else LESS_THAN_OR_EQUAL)) left_c right_c)"
proof -
  have "mset (cross_select (\<lambda>x y. if strict then x < y else x \<le> y)
                      (dropna left_c) (sort_key snd (dropna right_c)))
        = mset (cross_select (operator_map (if strict then LESS_THAN else LESS_THAN_OR_EQUAL)) left_c right_c)"
    by (rule mset_cross_select_sorted) (cases strict; simp)+
  then show ?thesis using less_than_indices_pairs[of left_c right_c strict] by blast
qed

lemma greater_than_indices_exact:
  fixes left_c right_c :: "('a::linorder) series"
  shows "\<exists>ps. greater_than_indices left_c right_c strict 1 = Inr (pairs_result ps)
            \<and> ps = cross_select (\<lambda>x y. if strict then x > y else x \<ge> y)
                      (dropna left_c) (sort_key snd (dropna right_c))
            \<and> mset ps = mset (cross_select
                      (operator_map (if strict then GREATER_THAN else GREATER_THAN_OR_EQUAL)) left_c right_c)"
proof -
  have "mset (cross_select (\<lambda>x y. if strict then x > y else x \<ge> y)
                      (dropna left_c) (sort_key snd (dropna right_c)))
        = mset (cross_select (operator_map (if strict then GREATER_THAN else GREATER_THAN_OR_EQUAL)) left_c right_c)"
    by (rule mset_cross_select_sorted) (cases strict; simp)+
  then show ?thesis using greater_than_indices_pairs[of left_c right_c strict] by blast
qed

section \<open>The claims\<close>

text \<open>
  C10. Interval-expansion precondition. Under the precondition (two arrays of one
  length, not empty, every run \<open>[indices[k], right[k])\<close> non-empty) \<open>interval_ranges\<close>
  raises nothing and returns the concatenation of the ranges, in order. The arrays a
  matcher hands over are those of its \<open>Bounds\<close> result: with one condition
  \<open>less_than_indices\<close> runs its last block, which calls \<open>interval_ranges search_indices
  indices\<close>, on exactly them (and \<open>greater_than_indices\<close> calls \<open>interval_ranges indices
  search_indices\<close>), and they meet the precondition. With no match the matcher returns
  before the call; in every case it returns without an error, so every array access
  inside is in bounds.
\<close>

theorem interval_ranges_precondition_met:
  fixes left_c right_c :: "('a::linorder) series"
  shows "(interval_pre indices right \<longrightarrow>
            interval_ranges indices right = Inr (concat (map2 (\<lambda>i r. [i..r - 1]) indices right)))
       \<and> (less_than_indices left_c right_c strict 2 = Inr (Some (Bounds li ri si ind)) \<longrightarrow>
            interval_pre si ind \<and> ind = replicate (length si) (int (length ri))
            \<and> less_than_indices left_c right_c strict 1 = less_than_result 1 li ri si (int (length ri)))
       \<and> (greater_than_indices left_c right_c strict 2 = Inr (Some (Bounds li' ri' si' ind')) \<longrightarrow>
            interval_pre ind' si' \<and> ind' = replicate (length si') 0
            \<and> greater_than_indices left_c right_c strict 1 = greater_than_result 1 li' ri' si')
       \<and> (\<exists>res. less_than_indices left_c right_c strict 1 = Inr res)
       \<and> (\<exists>res. greater_than_indices left_c right_c strict 1 = Inr res)"
proof -
  have a: "interval_pre indices right \<longrightarrow>
            interval_ranges indices right = Inr (concat (map2 (\<lambda>i r. [i..r - 1]) indices right))"
    using interval_ranges_pre by blast
  have b: "less_than_indices left_c right_c strict 2 = Inr (Some (Bounds li ri si ind)) \<longrightarrow>
            interval_pre si ind \<and> ind = replicate (length si) (int (length ri))
            \<and> less_than_indices left_c right_c strict 1 = less_than_result 1 li ri si (int (length ri))"
    using less_than_bounds_pre by blast
  have c: "greater_than_indices left_c right_c strict 2 = Inr (Some (Bounds li' ri' si' ind')) \<longrightarrow>
            interval_pre ind' si' \<and> ind' = replicate (length si') 0
            \<and> greater_than_indices left_c right_c strict 1 = greater_than_result 1 li' ri' si'"
    using greater_than_bounds_pre by blast
  have d: "\<exists>res. less_than_indices left_c right_c strict 1 = Inr res"
    unfolding less_than_indices_rows by blast
  have e: "\<exists>res. greater_than_indices left_c right_c strict 1 = Inr res"
    unfolding greater_than_indices_rows by blast
  from a b c d e show ?thesis by (intro conjI)
qed

theorem interval_ranges_precondition_met_witness:
  "interval_pre [1, 0] [3, 3]
   \<and> interval_ranges [1, 0] [3, 3] = Inr [1, 2, 0, 1, 2]
   \<and> less_than_indices [(0, Some (5::int)), (1, Some 10), (2, Some 1)] [(0, Some 7), (1, Some 3)] True 2
       = Inr (Some (Bounds [0, 2] [1, 0] [1, 0] [2, 2]))
   \<and> interval_pre [1, 0] [2, 2]
   \<and> less_than_indices [(0, Some (5::int)), (1, Some 10), (2, Some 1)] [(0, Some 7), (1, Some 3)] True 1
       = Inr (Some (Pairs [0, 2, 2] [0, 1, 0]))
   \<and> greater_than_indices [(0, Some (5::int)), (1, Some 10), (2, Some 1)] [(0, Some 7), (1, Some 3)] True 2
       = Inr (Some (Bounds [0, 1] [1, 0] [1, 2] [0, 0]))
   \<and> interval_pre [0, 0] [1, 2]
   \<and> greater_than_indices [(0, Some (5::int)), (1, Some 10), (2, Some 1)] [(0, Some 7), (1, Some 3)] True 1
       = Inr (Some (Pairs [0, 1, 1] [1, 1, 0]))"
proof -
  let ?l = "[(0, Some (5::int)), (1, Some 10), (2, Some 1)]" and ?r = "[(0, Some (7::int)), (1, Some 3)]"
  note c10 = interval_ranges_precondition_met[of "[1, 0]" "[3, 3]" ?l ?r True "[0, 2]" "[1, 0]" "[1, 0]" "[2, 2]"
      "[0, 1]" "[1, 0]" "[1, 2]" "[0, 0]"]
  have p: "interval_pre [1, 0] [3, 3]" by (simp add: interval_pre_def)
  have lt2: "less_than_indices ?l ?r True 2 = Inr (Some (Bounds [0, 2] [1, 0] [1, 0] [2, 2]))" by code_simp
  have gt2: "greater_than_indices ?l ?r True 2 = Inr (Some (Bounds [0, 1] [1, 0] [1, 2] [0, 0]))" by code_simp
  have lr: "less_than_result 1 [0, 2] [1, 0] [1, 0] (int (length [1::nat, 0])) = Inr (Some (Pairs [0, 2, 2] [0, 1, 0]))"
    by code_simp
  have gr: "greater_than_result 1 [0, 1] [1, 0] [1, 2] = Inr (Some (Pairs [0, 1, 1] [1, 1, 0]))" by code_simp
  have cc: "concat (map2 (\<lambda>i r. [i..r - 1]) [1, 0] [3, 3::int]) = [1, 2, 0, 1, 2]" by code_simp
  from c10 p lt2 gt2 lr gr cc show ?thesis by simp
qed

text \<open>
  C4. Range-matcher correctness, ties included. With one condition
  \<open>less_than_indices\<close> returns, for every non-null left row in order, the labels of the
  sorted right column from the row's insertion point to its end: these are the right
  rows with \<open>left < right\<close> when strict and \<open>left \<le> right\<close> otherwise, so the pairs
  returned are, as a multiset, exactly the pairs of the cross product on which the
  elementwise operator holds (each once per pair of rows, none with a null).
  \<open>greater_than_indices\<close> mirrors it with \<open>>\<close> and \<open>\<ge>\<close>. No match is \<open>None\<close>.
\<close>

theorem range_matchers_exact:
  fixes left_c right_c :: "('a::linorder) series"
  shows "(\<exists>ps. less_than_indices left_c right_c strict 1 = Inr (pairs_result ps)
            \<and> ps = cross_select (\<lambda>x y. if strict then x < y else x \<le> y)
                      (dropna left_c) (sort_key snd (dropna right_c))
            \<and> mset ps = mset (cross_select
                      (operator_map (if strict then LESS_THAN else LESS_THAN_OR_EQUAL)) left_c right_c))
       \<and> (\<exists>ps. greater_than_indices left_c right_c strict 1 = Inr (pairs_result ps)
            \<and> ps = cross_select (\<lambda>x y. if strict then x > y else x \<ge> y)
                      (dropna left_c) (sort_key snd (dropna right_c))
            \<and> mset ps = mset (cross_select
                      (operator_map (if strict then GREATER_THAN else GREATER_THAN_OR_EQUAL)) left_c right_c))"
  using less_than_indices_exact[of left_c right_c strict]
    greater_than_indices_exact[of left_c right_c strict] by (intro conjI)

theorem range_matchers_exact_witness:
  "less_than_indices [(0, Some (5::int)), (1, Some 10), (2, None), (3, Some 3)]
      [(0, Some 7), (1, Some 3), (2, Some 5), (3, None)] True 1
     = Inr (pairs_result [(0, 0), (3, 2), (3, 0)])
   \<and> mset [(0::nat, 0::nat), (3, 2), (3, 0)]
     = mset (cross_select (operator_map LESS_THAN)
         [(0, Some (5::int)), (1, Some 10), (2, None), (3, Some 3)]
         [(0, Some 7), (1, Some 3), (2, Some 5), (3, None)])
   \<and> greater_than_indices [(0, Some (5::int)), (1, Some 10), (2, None), (3, Some 3)]
      [(0, Some 7), (1, Some 3), (2, Some 5), (3, None)] True 1
     = Inr (pairs_result [(0, 1), (1, 1), (1, 2), (1, 0)])
   \<and> mset [(0::nat, 1::nat), (1, 1), (1, 2), (1, 0)]
     = mset (cross_select (operator_map GREATER_THAN)
         [(0, Some (5::int)), (1, Some 10), (2, None), (3, Some 3)]
         [(0, Some 7), (1, Some 3), (2, Some 5), (3, None)])"
proof -
  let ?l = "[(0, Some (5::int)), (1, Some 10), (2, None), (3, Some 3)]"
  let ?r = "[(0, Some (7::int)), (1, Some 3), (2, Some 5), (3, None)]"
  have a: "cross_select (\<lambda>x y. if True then x < y else x \<le> y) (dropna ?l) (sort_key snd (dropna ?r))
           = [(0, 0), (3, 2), (3, 0)]" by code_simp
  have b: "cross_select (\<lambda>x y. if True then x > y else x \<ge> y) (dropna ?l) (sort_key snd (dropna ?r))
           = [(0, 1), (1, 1), (1, 2), (1, 0)]" by code_simp
  from range_matchers_exact[of ?l ?r True] a b show ?thesis by simp
qed

end
